theory Spec2Isabelle
  imports Complex_Main "HOL-Library.Sublist" "HOL-Library.Log_Nat" "HOL-Library.Multiset"
begin

section \<open>Python values used by the three scrapers\<close>

text \<open>
  The repository holds three scripts: \<^verbatim>\<open>CMESOFR.py\<close> (SOFR strip rates),
  \<^verbatim>\<open>CNBC.py\<close> (chart data, with retry) and \<^verbatim>\<open>CNBC_US10YTIP_History.py\<close> (chart data,
  single attempt). Each parses a JSON payload, normalizes it into rows and writes items
  into a DynamoDB table. The embedding follows the Python: exceptions are values of
  \<open>exn\<close>, a function that may raise returns \<open>exn + 'a\<close> with \<open>Inl\<close> the exception.
\<close>

datatype exn =
    ValueError | TypeError | AttributeError | OverflowError | IndexError | OSError
  | InvalidOperation | HTTPError | RequestException | JSONDecodeError

definition bindE :: "exn + 'a \<Rightarrow> ('a \<Rightarrow> exn + 'b) \<Rightarrow> exn + 'b" where
  "bindE m f = (case m of Inl e \<Rightarrow> Inl e | Inr x \<Rightarrow> f x)"

subsection \<open>Floats: IEEE binary64 with round-to-nearest, ties-to-even\<close>

text \<open>
  A Python float is a binary64 number. A finite one is kept by its exact rational value;
  the sign of zero is not kept. \<open>rn q\<close> is the float nearest to the rational \<open>q\<close>: the
  result of \<^verbatim>\<open>float("...")\<close> on a numeral, of \<^verbatim>\<open>int / int\<close> and of a float product, all of
  which CPython rounds correctly. With \<open>e\<close> the exponent of the unit in the last place
  (at least \<open>-1074\<close>, the subnormal spacing), \<open>m\<close> is \<open>|q| / 2^e\<close> rounded to an integer,
  ties to even; a result of \<open>2^1024\<close> or more is an infinity.
\<close>

datatype pyfloat = Fin rat | PInf | NInf | NaN

definition pow2 :: "int \<Rightarrow> rat" where
  "pow2 e = (if 0 \<le> e then of_int (2 ^ nat e) else 1 / of_int (2 ^ nat (- e)))"

definition pow10 :: "int \<Rightarrow> rat" where
  "pow10 e = (if 0 \<le> e then of_int (10 ^ nat e) else 1 / of_int (10 ^ nat (- e)))"

text \<open>
  The exponent of the unit in the last place of the floats around \<open>a / d\<close> (both
  positive): 52 below the binary logarithm of the quotient, and at least \<open>-1074\<close>.
\<close>

definition ulp_exponent :: "int \<Rightarrow> int \<Rightarrow> int" where
  "ulp_exponent a d =
     (let k = bitlen a - bitlen d;
          il = (if (if 0 \<le> k then d * 2 ^ nat k \<le> a else d \<le> a * 2 ^ nat (- k))
                then k else k - 1)
      in max (il - 52) (- 1074))"

text \<open>The integer nearest to \<open>N / D\<close> (\<open>D\<close> positive), ties to even.\<close>

definition round_ratio :: "int \<Rightarrow> int \<Rightarrow> int" where
  "round_ratio N D =
     (let f = N div D; r = N mod D
      in if 2 * r < D then f else if D < 2 * r then f + 1
         else if even f then f else f + 1)"

definition rn :: "rat \<Rightarrow> pyfloat" where
  "rn q = (case quotient_of q of (n, d) \<Rightarrow>
     if n = 0 then Fin 0 else
     (let a = \<bar>n\<bar>;
          e = ulp_exponent a d;
          m = (if e < 0 then round_ratio (a * 2 ^ nat (- e)) d
               else round_ratio a (d * 2 ^ nat e))
      in if 1024 < bitlen m + e then (if 0 < n then PInf else NInf)
         else Fin (of_int (if 0 < n then m else - m) * pow2 e)))"

text \<open>Float product \<^verbatim>\<open>x * y\<close>.\<close>

definition fmul :: "pyfloat \<Rightarrow> pyfloat \<Rightarrow> pyfloat" where
  "fmul x y = (case (x, y) of
       (Fin a, Fin b) \<Rightarrow> rn (a * b)
     | (NaN, _) \<Rightarrow> NaN
     | (_, NaN) \<Rightarrow> NaN
     | (Fin a, PInf) \<Rightarrow> (if a = 0 then NaN else if 0 < a then PInf else NInf)
     | (Fin a, NInf) \<Rightarrow> (if a = 0 then NaN else if 0 < a then NInf else PInf)
     | (PInf, Fin b) \<Rightarrow> (if b = 0 then NaN else if 0 < b then PInf else NInf)
     | (NInf, Fin b) \<Rightarrow> (if b = 0 then NaN else if 0 < b then NInf else PInf)
     | (PInf, PInf) \<Rightarrow> PInf
     | (NInf, NInf) \<Rightarrow> PInf
     | (PInf, NInf) \<Rightarrow> NInf
     | (NInf, PInf) \<Rightarrow> NInf)"

text \<open>\<^verbatim>\<open>int(x)\<close> on a float truncates toward zero; it raises on an infinity or a NaN.\<close>

definition trunc :: "rat \<Rightarrow> int" where
  "trunc a = (if 0 \<le> a then \<lfloor>a\<rfloor> else \<lceil>a\<rceil>)"

definition int_of_float :: "pyfloat \<Rightarrow> exn + int" where
  "int_of_float x = (case x of
       Fin a \<Rightarrow> Inr (trunc a)
     | NaN \<Rightarrow> Inl ValueError
     | _ \<Rightarrow> Inl OverflowError)"

text \<open>
  \<^verbatim>\<open>a / b\<close> on two ints (true division, \<open>b\<close> not zero): correctly rounded, and an
  OverflowError where the quotient is beyond the floats. \<^verbatim>\<open>float(n)\<close> on an int is the
  same with \<open>b = 1\<close>.
\<close>

definition int_truediv :: "int \<Rightarrow> int \<Rightarrow> exn + pyfloat" where
  "int_truediv a b = (case rn (of_int a / of_int b) of
       Fin v \<Rightarrow> Inr (Fin v)
     | _ \<Rightarrow> Inl OverflowError)"

subsection \<open>Strings and numerals\<close>

text \<open>
  A string is a list of characters with code points below 256 (ASCII and Latin-1); the
  functions below follow CPython 3.11 on such strings.
\<close>

definition is_digit :: "char \<Rightarrow> bool" where
  "is_digit c = (c \<in> set ''0123456789'')"

definition digit_val :: "char \<Rightarrow> int" where
  "digit_val c = of_char c - 48"

definition int_of_digits :: "string \<Rightarrow> int" where
  "int_of_digits ds = foldl (\<lambda>n c. 10 * n + digit_val c) 0 ds"

text \<open>
  White space. \<^verbatim>\<open>float()\<close> and \<^verbatim>\<open>int()\<close> first turn every white-space character above
  ASCII into a space (below 256 these are the next-line character 133 and the
  no-break space 160) and then strip the ASCII white space of C: tab to carriage
  return, and space. \<^verbatim>\<open>Decimal()\<close> strips the white space of \<^verbatim>\<open>str.isspace\<close>, which has
  the four separators 28 to 31 in addition.
\<close>

definition is_space :: "char \<Rightarrow> bool" where
  "is_space c = ((of_char c :: nat) \<in> set [9, 10, 11, 12, 13, 32])"

definition is_unicode_space :: "char \<Rightarrow> bool" where
  "is_unicode_space c = ((of_char c :: nat) \<in> set [9, 10, 11, 12, 13, 28, 29, 30, 31, 32, 133, 160])"

definition space_to_ascii :: "char \<Rightarrow> char" where
  "space_to_ascii c = (if (of_char c :: nat) \<in> set [133, 160] then CHR '' '' else c)"

definition strip :: "string \<Rightarrow> string" where
  "strip s = rev (dropWhile is_space (rev (dropWhile is_space s)))"

definition strip_unicode :: "string \<Rightarrow> string" where
  "strip_unicode s = rev (dropWhile is_unicode_space (rev (dropWhile is_unicode_space s)))"

text \<open>
  \<^verbatim>\<open>s.lower()\<close>: the ASCII capitals, and the Latin-1 capitals 192 to 222 (but not the
  multiplication sign 215), which have their small letter 32 places further.
\<close>

definition lower_char :: "char \<Rightarrow> char" where
  "lower_char c =
     (case map_of (zip ''ABCDEFGHIJKLMNOPQRSTUVWXYZ'' ''abcdefghijklmnopqrstuvwxyz'') c of
        Some l \<Rightarrow> l
      | None \<Rightarrow>
          (let n = (of_char c :: nat)
           in if 192 \<le> n \<and> n \<le> 222 \<and> n \<noteq> 215 then char_of (n + 32) else c))"

definition py_lower :: "string \<Rightarrow> string" where
  "py_lower s = map lower_char s"

text \<open>
  An underscore in a numeral given to \<^verbatim>\<open>float()\<close> or \<^verbatim>\<open>int()\<close> must stand between two digits.
\<close>

fun underscores_ok :: "char \<Rightarrow> string \<Rightarrow> bool" where
  "underscores_ok p [] = True"
| "underscores_ok p [c] = (c \<noteq> CHR ''_'')"
| "underscores_ok p (c # n # r) =
     ((if c = CHR ''_'' then is_digit p \<and> is_digit n else True) \<and> underscores_ok c (n # r))"

definition drop_underscores :: "string \<Rightarrow> string" where
  "drop_underscores s = filter (\<lambda>c. c \<noteq> CHR ''_'') s"

definition split_sign :: "string \<Rightarrow> bool \<times> string" where
  "split_sign s = (case s of
       [] \<Rightarrow> (False, [])
     | c # r \<Rightarrow> if c = CHR ''-'' then (True, r)
                else if c = CHR ''+'' then (False, r) else (False, s))"

text \<open>The exponent part of a numeral: nothing, or \<^verbatim>\<open>e\<close>, an optional sign and digits.\<close>

definition parse_exponent :: "string \<Rightarrow> int option" where
  "parse_exponent s = (case s of
       [] \<Rightarrow> Some 0
     | c # r \<Rightarrow>
         if c = CHR ''e'' \<or> c = CHR ''E'' then
           (case split_sign r of (neg, ds) \<Rightarrow>
              if ds \<noteq> [] \<and> list_all is_digit ds
              then Some (if neg then - int_of_digits ds else int_of_digits ds)
              else None)
         else None)"

text \<open>
  An unsigned decimal numeral: digits, an optional point and digits (a digit on at least
  one side), an optional exponent. The result \<open>(c, e)\<close> stands for \<open>c * 10^e\<close>.
\<close>

definition parse_unsigned :: "string \<Rightarrow> (int \<times> int) option" where
  "parse_unsigned s =
     (let ip = takeWhile is_digit s; r1 = dropWhile is_digit s;
          fp = (case r1 of [] \<Rightarrow> [] | c # r \<Rightarrow> if c = CHR ''.'' then takeWhile is_digit r else []);
          r2 = (case r1 of [] \<Rightarrow> [] | c # r \<Rightarrow> if c = CHR ''.'' then dropWhile is_digit r else r1)
      in if ip = [] \<and> fp = [] then None
         else (case parse_exponent r2 of
                 None \<Rightarrow> None
               | Some ex \<Rightarrow> Some (int_of_digits (ip @ fp), ex - int (length fp))))"

definition signed :: "bool \<Rightarrow> rat \<Rightarrow> rat" where
  "signed neg a = (if neg then - a else a)"

text \<open>\<^verbatim>\<open>float(s)\<close> on a string; \<open>None\<close> is the ValueError.\<close>

definition float_of_string :: "string \<Rightarrow> pyfloat option" where
  "float_of_string s0 =
     (let s = strip (map space_to_ascii s0) in
      if \<not> underscores_ok (CHR '' '') s then None
      else (case split_sign (drop_underscores s) of (neg, u) \<Rightarrow>
        if py_lower u = ''inf'' \<or> py_lower u = ''infinity'' then Some (if neg then NInf else PInf)
        else if py_lower u = ''nan'' then Some NaN
        else (case parse_unsigned u of
                None \<Rightarrow> None
              | Some (c, e) \<Rightarrow> Some (rn (signed neg (of_int c * pow10 e))))))"

text \<open>
  \<^verbatim>\<open>int(s)\<close> on a string: sign and digits only, and at most 4300 digits (the default
  limit of CPython 3.11).
\<close>

definition int_of_string :: "string \<Rightarrow> int option" where
  "int_of_string s0 =
     (let s = strip (map space_to_ascii s0) in
      if \<not> underscores_ok (CHR '' '') s then None
      else (case split_sign (drop_underscores s) of (neg, u) \<Rightarrow>
        if u \<noteq> [] \<and> list_all is_digit u \<and> length u \<le> 4300
        then Some (if neg then - int_of_digits u else int_of_digits u)
        else None))"

subsection \<open>Exact decimals\<close>

text \<open>
  A \<^verbatim>\<open>decimal.Decimal\<close> is kept by its exact value (Python compares Decimals by value).
  \<^verbatim>\<open>Decimal(s)\<close> strips the white space of \<^verbatim>\<open>str.isspace\<close>, drops every underscore, reads
  the same numerals as above exactly, and also \<^verbatim>\<open>Inf\<close>, \<^verbatim>\<open>Infinity\<close>, \<^verbatim>\<open>NaN\<close> and \<^verbatim>\<open>sNaN\<close>
  with an optional payload of digits; \<open>None\<close> is \<^verbatim>\<open>decimal.InvalidOperation\<close>.
\<close>

datatype decimal = DFin rat | DInf bool | DNaN

definition is_nan_literal :: "string \<Rightarrow> bool" where
  "is_nan_literal l =
     ((take 3 l = ''nan'' \<and> list_all is_digit (drop 3 l))
      \<or> (take 4 l = ''snan'' \<and> list_all is_digit (drop 4 l)))"

definition decimal_of_string :: "string \<Rightarrow> decimal option" where
  "decimal_of_string s0 =
     (case split_sign (drop_underscores (strip_unicode s0)) of (neg, u) \<Rightarrow>
        if py_lower u = ''inf'' \<or> py_lower u = ''infinity'' then Some (DInf neg)
        else if is_nan_literal (py_lower u) then Some DNaN
        else (case parse_unsigned u of
                None \<Rightarrow> None
              | Some (c, e) \<Rightarrow> Some (DFin (signed neg (of_int c * pow10 e)))))"

text \<open>
  \<^verbatim>\<open>Decimal(str(x))\<close> on a float \<open>x\<close>. \<^verbatim>\<open>str\<close> prints the shortest decimal numeral that
  \<^verbatim>\<open>float()\<close> reads back as \<open>x\<close> (the nearest to \<open>x\<close> among the shortest), and \<^verbatim>\<open>Decimal\<close>
  reads that numeral exactly. \<open>shortest_from\<close> tries 1, 2, ... significant digits: at
  \<open>n\<close> digits the candidates are the two \<open>n\<close>-digit decimals around \<open>a\<close>. Seventeen digits
  always identify a binary64 number.
\<close>

function ndigits :: "int \<Rightarrow> int" where
  "ndigits n = (if n \<le> 0 then 0 else ndigits (n div 10) + 1)"
  by pat_completeness auto
termination
  by (relation "measure nat") auto

declare ndigits.simps [simp del]

definition ilog10 :: "rat \<Rightarrow> int" where
  "ilog10 a = (case quotient_of a of (n, d) \<Rightarrow>
     (let k = ndigits n - ndigits d
      in if pow10 k \<le> a then k else k - 1))"

fun shortest_from :: "nat \<Rightarrow> nat \<Rightarrow> rat \<Rightarrow> rat option" where
  "shortest_from 0 n a = None"
| "shortest_from (Suc fuel) n a =
     (let u = pow10 (ilog10 a - int n + 1);
          lo = of_int \<lfloor>a / u\<rfloor> * u; hi = of_int \<lceil>a / u\<rceil> * u;
          oklo = (rn lo = Fin a); okhi = (rn hi = Fin a)
      in if oklo \<and> okhi then
           Some (if a - lo < hi - a then lo else if hi - a < a - lo then hi
                 else if even \<lfloor>a / u\<rfloor> then lo else hi)
         else if oklo then Some lo
         else if okhi then Some hi
         else shortest_from fuel (Suc n) a)"

definition decimal_of_float :: "pyfloat \<Rightarrow> decimal" where
  "decimal_of_float x = (case x of
       Fin a \<Rightarrow>
         if a = 0 then DFin 0
         else (case shortest_from 17 1 \<bar>a\<bar> of
                 Some d \<Rightarrow> DFin (if 0 < a then d else - d)
               | None \<Rightarrow> DFin a)
     | PInf \<Rightarrow> DInf False
     | NInf \<Rightarrow> DInf True
     | NaN \<Rightarrow> DNaN)"

subsection \<open>Parsed JSON\<close>

text \<open>
  What \<^verbatim>\<open>json.loads\<close> returns. A dict is an association list read by \<open>map_of\<close>. A JSON
  number without fraction or exponent is a Python int, any other a float.
\<close>

datatype json =
    JNull | JBool bool | JInt int | JNum pyfloat | JStr string
  | JArr "json list" | JObj "(string \<times> json) list"

text \<open>Truth value of a Python object, as \<^verbatim>\<open>if x:\<close> and \<^verbatim>\<open>and\<close> test it.\<close>

fun truthy :: "json \<Rightarrow> bool" where
  "truthy JNull = False"
| "truthy (JBool b) = b"
| "truthy (JInt n) = (n \<noteq> 0)"
| "truthy (JNum x) = (x \<noteq> Fin 0)"
| "truthy (JStr s) = (s \<noteq> [])"
| "truthy (JArr xs) = (xs \<noteq> [])"
| "truthy (JObj kvs) = (kvs \<noteq> [])"

fun is_dict :: "json \<Rightarrow> bool" where
  "is_dict (JObj kvs) = True"
| "is_dict _ = False"

text \<open>
  \<^verbatim>\<open>d.get(k)\<close> and \<^verbatim>\<open>d.get(k, default)\<close>: only a dict has the method; a missing key gives
  \<^verbatim>\<open>None\<close> (here \<open>JNull\<close>) or the default.
\<close>

definition get_default :: "json \<Rightarrow> string \<Rightarrow> json \<Rightarrow> exn + json" where
  "get_default d k dflt = (case d of
       JObj kvs \<Rightarrow> Inr (case map_of kvs k of None \<Rightarrow> dflt | Some v \<Rightarrow> v)
     | _ \<Rightarrow> Inl AttributeError)"

definition dict_get :: "json \<Rightarrow> string \<Rightarrow> exn + json" where
  "dict_get d k = get_default d k JNull"

text \<open>
  \<^verbatim>\<open>for x in v\<close>: a list gives its elements, a dict its keys, a string its characters;
  nothing else can be iterated.
\<close>

definition py_iter :: "json \<Rightarrow> exn + json list" where
  "py_iter v = (case v of
       JArr xs \<Rightarrow> Inr xs
     | JObj kvs \<Rightarrow> Inr (map (\<lambda>kv. JStr (fst kv)) kvs)
     | JStr s \<Rightarrow> Inr (map (\<lambda>c. JStr [c]) s)
     | _ \<Rightarrow> Inl TypeError)"

text \<open>
  \<^verbatim>\<open>float(v)\<close> on a parsed JSON value: a string is parsed, a number converted, \<^verbatim>\<open>None\<close>, a
  list and a dict are a TypeError.
\<close>

definition py_float :: "json \<Rightarrow> exn + pyfloat" where
  "py_float v = (case v of
       JStr s \<Rightarrow> (case float_of_string s of None \<Rightarrow> Inl ValueError | Some x \<Rightarrow> Inr x)
     | JNum x \<Rightarrow> Inr x
     | JInt n \<Rightarrow> int_truediv n 1
     | JBool b \<Rightarrow> Inr (Fin (if b then 1 else 0))
     | _ \<Rightarrow> Inl TypeError)"

text \<open>
  \<^verbatim>\<open>float(str(v))\<close>, with the ValueError as \<open>None\<close>. \<^verbatim>\<open>str\<close> of a string is the string;
  \<^verbatim>\<open>str\<close> of a float prints a numeral that reads back as the same float, \<^verbatim>\<open>str\<close> of an int
  prints its digits (read back with rounding, possibly to an infinity); \<^verbatim>\<open>str\<close> of
  \<^verbatim>\<open>None\<close>, \<^verbatim>\<open>True\<close>, \<^verbatim>\<open>False\<close>, a list or a dict prints text that is no numeral. \<open>edit\<close> is
  what the caller does to the text of a string in between.
\<close>

definition float_of_str :: "(string \<Rightarrow> string) \<Rightarrow> json \<Rightarrow> pyfloat option" where
  "float_of_str edit v = (case v of
       JStr s \<Rightarrow> float_of_string (edit s)
     | JNum x \<Rightarrow> Some x
     | JInt n \<Rightarrow> Some (rn (of_int n))
     | _ \<Rightarrow> None)"

text \<open>
  \<^verbatim>\<open>decimal.Decimal(str(v))\<close> on a cell of a data frame, with \<^verbatim>\<open>InvalidOperation\<close> as
  \<open>None\<close>: a string is read as it stands, an int exactly, a float through its printed
  numeral; the text of \<^verbatim>\<open>True\<close>, \<^verbatim>\<open>False\<close>, a list or a dict is no numeral.
\<close>

definition decimal_of_str :: "json \<Rightarrow> decimal option" where
  "decimal_of_str v = (case v of
       JStr s \<Rightarrow> decimal_of_string s
     | JNum x \<Rightarrow> Some (decimal_of_float x)
     | JInt n \<Rightarrow> Some (DFin (of_int n))
     | _ \<Rightarrow> None)"

section \<open>CMESOFR.py: the strip-rate normalizer\<close>

text \<open>
  \<^verbatim>\<open>overnight_rate_str = str(day_data.get('overnight', 'N/A'))\<close>, and the rate is kept only
  if \<^verbatim>\<open>overnight_rate_str.lower() not in ['-', 'n/a', 'none', '']\<close> and \<^verbatim>\<open>float()\<close> accepts
  it. The text of \<^verbatim>\<open>None\<close> is \<^verbatim>\<open>'None'\<close>; the text of a number, a bool, a list or a dict is
  never one of the four sentinels.
\<close>

definition sentinels :: "string list" where
  "sentinels = [''-'', ''n/a'', ''none'', [] ]"

definition is_sentinel :: "json \<Rightarrow> bool" where
  "is_sentinel v = (case v of
       JStr s \<Rightarrow> py_lower s \<in> set sentinels
     | JNull \<Rightarrow> ''none'' \<in> set sentinels
     | _ \<Rightarrow> False)"

definition overnight_rate :: "json \<Rightarrow> pyfloat option" where
  "overnight_rate v = (if is_sentinel v then None else float_of_str id v)"

text \<open>
  \<^verbatim>\<open>r.get('timestamp','').startswith(date_str)\<close>: the timestamp must be a string to have
  the method (AttributeError), and the date label must be a string (TypeError).
\<close>

definition timestamp_of :: "json \<Rightarrow> exn + string" where
  "timestamp_of r = bindE (get_default r ''timestamp'' (JStr [])) (\<lambda>t.
     case t of JStr s \<Rightarrow> Inr s | _ \<Rightarrow> Inl AttributeError)"

fun on_date :: "json \<Rightarrow> json list \<Rightarrow> exn + json list" where
  "on_date date_str [] = Inr []"
| "on_date date_str (r # rs) = bindE (timestamp_of r) (\<lambda>ts.
     case date_str of
       JStr d \<Rightarrow> bindE (on_date date_str rs) (\<lambda>keep. Inr (if prefix d ts then r # keep else keep))
     | _ \<Rightarrow> Inl TypeError)"

definition has_t10 :: "json \<Rightarrow> bool" where
  "has_t10 r = (case timestamp_of r of Inr ts \<Rightarrow> sublist ''T10:00'' ts | Inl e \<Rightarrow> False)"

text \<open>Lines 131 to 144: the candidate chosen among the entries \<open>L\<close> of one term.\<close>

definition select_rate_info :: "json \<Rightarrow> json list \<Rightarrow> exn + json" where
  "select_rate_info date_str L = (case L of
       [] \<Rightarrow> Inl IndexError
     | [r] \<Rightarrow> Inr r
     | _ \<Rightarrow> bindE (on_date date_str L) (\<lambda>on_date_rates.
         if on_date_rates \<noteq> [] then
           (let t10_rates = filter has_t10 on_date_rates
            in if t10_rates \<noteq> [] then Inr (hd t10_rates) else Inr (hd on_date_rates))
         else Inr (hd L)))"

text \<open>
  Lines 146 to 150: the price of the chosen entry as a float; a ValueError or TypeError
  of \<^verbatim>\<open>float()\<close> leaves the term absent, any other exception escapes.
\<close>

definition rate_price :: "json \<Rightarrow> exn + pyfloat option" where
  "rate_price sel = (case sel of
       JObj kvs \<Rightarrow> (case map_of kvs ''price'' of
           None \<Rightarrow> Inr None
         | Some p \<Rightarrow> (case py_float p of
               Inr x \<Rightarrow> Inr (Some x)
             | Inl e \<Rightarrow> if e = ValueError \<or> e = TypeError then Inr None else Inl e))
     | _ \<Rightarrow> Inr None)"

text \<open>
  Lines 119 to 125: the entries grouped by term, the groups in the order of first
  occurrence. A term that is a list or a dict cannot be a dict key (TypeError); a term
  that is not a string never is one of the four recognized terms and is left out here.
\<close>

fun add_to_group :: "string \<Rightarrow> json \<Rightarrow> (string \<times> json list) list \<Rightarrow> (string \<times> json list) list" where
  "add_to_group t r [] = [(t, [r])]"
| "add_to_group t r ((k, rs) # g) =
     (if k = t then (k, rs @ [r]) # g else (k, rs) # add_to_group t r g)"

fun group_by_term :: "json list \<Rightarrow> (string \<times> json list) list \<Rightarrow> exn + (string \<times> json list) list" where
  "group_by_term [] g = Inr g"
| "group_by_term (r # rs) g = bindE (dict_get r ''term'') (\<lambda>t.
     if \<not> truthy t then group_by_term rs g
     else (case t of
         JStr k \<Rightarrow> group_by_term rs (add_to_group k r g)
       | JArr xs \<Rightarrow> Inl TypeError
       | JObj kvs \<Rightarrow> Inl TypeError
       | _ \<Rightarrow> group_by_term rs g))"

definition recognized_terms :: "string list" where
  "recognized_terms = [''1M'', ''3M'', ''6M'', ''1Y'']"

fun select_terms :: "json \<Rightarrow> (string \<times> json list) list \<Rightarrow> (string \<rightharpoonup> pyfloat) \<Rightarrow> exn + (string \<rightharpoonup> pyfloat)" where
  "select_terms date_str [] term_rates = Inr term_rates"
| "select_terms date_str ((term_key, L) # g) term_rates =
     (if term_key \<notin> set recognized_terms then select_terms date_str g term_rates
      else bindE (select_rate_info date_str L) (\<lambda>sel.
           bindE (rate_price sel) (\<lambda>p.
           select_terms date_str g
             (case p of None \<Rightarrow> term_rates | Some x \<Rightarrow> term_rates(term_key \<mapsto> x)))))"

text \<open>
  Line 118: \<^verbatim>\<open>'rates' in day_data and 'sofrRatesFixing' in day_data['rates']\<close>, then
  \<^verbatim>\<open>day_data['rates']['sofrRatesFixing']\<close>. On a string \<^verbatim>\<open>in\<close> is the substring test and on
  a list the membership test, and neither can then be indexed by a string.
\<close>

definition fixing_of :: "json \<Rightarrow> exn + json option" where
  "fixing_of day = (case day of
       JObj kvs \<Rightarrow> (case map_of kvs ''rates'' of
           None \<Rightarrow> Inr None
         | Some (JObj rs) \<Rightarrow> Inr (map_of rs ''sofrRatesFixing'')
         | Some (JStr s) \<Rightarrow> if sublist ''sofrRatesFixing'' s then Inl TypeError else Inr None
         | Some (JArr xs) \<Rightarrow> if JStr ''sofrRatesFixing'' \<in> set xs then Inl TypeError else Inr None
         | Some _ \<Rightarrow> Inl TypeError)
     | _ \<Rightarrow> Inl AttributeError)"

definition term_rates_of :: "json \<Rightarrow> json \<Rightarrow> exn + (string \<rightharpoonup> pyfloat)" where
  "term_rates_of date_str day = bindE (fixing_of day) (\<lambda>fx.
     case fx of
       None \<Rightarrow> Inr Map.empty
     | Some f \<Rightarrow> bindE (py_iter f) (\<lambda>items.
                 bindE (group_by_term items []) (\<lambda>g.
                 select_terms date_str g Map.empty)))"

text \<open>One row of \<^verbatim>\<open>processed_data\<close>; \<open>'d\<close> is the type of the date column.\<close>

record 'd strip_row =
  Date :: 'd
  Overnight :: "pyfloat option"
  Term1M :: "pyfloat option"
  Term3M :: "pyfloat option"
  Term6M :: "pyfloat option"
  Term1Y :: "pyfloat option"
  Avg30 :: json
  Avg90 :: json
  Avg180 :: json
  SofrIndex :: json

definition normalize_day :: "json \<Rightarrow> exn + json strip_row" where
  "normalize_day day_data =
     bindE (dict_get day_data ''date'') (\<lambda>date_str.
     bindE (get_default day_data ''overnight'' (JStr ''N/A'')) (\<lambda>overnight.
     bindE (dict_get day_data ''average30day'') (\<lambda>avg_30d.
     bindE (dict_get day_data ''average90day'') (\<lambda>avg_90d.
     bindE (dict_get day_data ''average180day'') (\<lambda>avg_180d.
     bindE (dict_get day_data ''index'') (\<lambda>sofr_index.
     bindE (term_rates_of date_str day_data) (\<lambda>term_rates.
     Inr \<lparr> Date = date_str, Overnight = overnight_rate overnight,
           Term1M = term_rates ''1M'', Term3M = term_rates ''3M'',
           Term6M = term_rates ''6M'', Term1Y = term_rates ''1Y'',
           Avg30 = avg_30d, Avg90 = avg_90d, Avg180 = avg_180d,
           SofrIndex = sofr_index \<rparr>)))))))"

text \<open>
  Lines 98 to 100: \<^verbatim>\<open>for i, day_data in enumerate(daily_strips): if i >= 5: break\<close>.
\<close>

fun process_days :: "nat \<Rightarrow> json list \<Rightarrow> exn + json strip_row list" where
  "process_days i [] = Inr []"
| "process_days i (day_data # rest) =
     (if 5 \<le> i then Inr []
      else bindE (normalize_day day_data) (\<lambda>row.
           bindE (process_days (Suc i) rest) (\<lambda>rows. Inr (row # rows))))"

definition normalize_strips :: "json \<Rightarrow> exn + json strip_row list" where
  "normalize_strips data = (case data of
       JObj kvs \<Rightarrow> (case map_of kvs ''resultsStrip'' of
           None \<Rightarrow> Inr []
         | Some daily_strips \<Rightarrow> bindE (py_iter daily_strips) (process_days 0))
     | _ \<Rightarrow> Inr [])"

section \<open>Data frames, library calls and the DynamoDB table\<close>

text \<open>
  A datetime is kept as the microseconds since the epoch that pandas computes with: the
  UTC instant of an aware value, the wall clock read as UTC of a naive one.
\<close>

record datetime =
  micros :: int
  aware :: bool

text \<open>One row of the chart-data frame: columns \<^verbatim>\<open>DateTime\<close> and \<^verbatim>\<open>Value\<close> (\<^verbatim>\<open>Close Price\<close>).\<close>

record bar_row =
  DateTime :: datetime
  Value :: pyfloat

text \<open>
  Calls into pandas and the C library whose results the scripts do not determine are
  parameters of the model:
  \<^item> \<open>to_datetime\<close>: \<^verbatim>\<open>pd.to_datetime\<close> on the \<^verbatim>\<open>Date\<close> column (\<open>None\<close> is \<^verbatim>\<open>NaT\<close>);
  \<^item> \<open>strftime\<close>: the text of a datetime in a given format;
  \<^item> \<open>isna_list\<close>: the truth value of \<^verbatim>\<open>pd.isna(v)\<close> for a cell \<open>v\<close> that is a list (pandas
    answers with an array, whose truth value may raise);
  \<^item> \<open>series_is_finite\<close>: \<^verbatim>\<open>pd.Series(v).is_finite().all()\<close> (a pandas \<^verbatim>\<open>Series\<close> has no
    attribute of that name, so with pandas the call raises AttributeError);
  \<^item> \<open>sort_values\<close>: \<^verbatim>\<open>df.sort_values(by='DateTime')\<close> with the default sort kind;
  \<^item> \<open>utcoffset\<close>: the offset in seconds of the local time zone at an epoch second.
\<close>

record pylib =
  to_datetime :: "json list \<Rightarrow> exn + datetime option list"
  strftime :: "string \<Rightarrow> datetime \<Rightarrow> string"
  isna_list :: "json list \<Rightarrow> exn + bool"
  series_is_finite :: "pyfloat \<Rightarrow> exn + bool"
  sort_values :: "bar_row list \<Rightarrow> bar_row list"
  utcoffset :: "int \<Rightarrow> int"

text \<open>
  \<^verbatim>\<open>dt.timestamp()\<close> is the float nearest to the seconds since the epoch, and
  \<^verbatim>\<open>int(dt.timestamp() * 1000)\<close> multiplies in floating point and truncates.
\<close>

definition posix_timestamp :: "datetime \<Rightarrow> pyfloat" where
  "posix_timestamp dt = rn (of_int (micros dt) / 1000000)"

definition epoch_millis :: "datetime \<Rightarrow> exn + int" where
  "epoch_millis dt = int_of_float (fmul (posix_timestamp dt) (Fin 1000))"

text \<open>
  An item of the table, with its key attributes \<^verbatim>\<open>metricId\<close> and \<^verbatim>\<open>timestamp\<close>. The table
  maps a key to the item last put under it: \<^verbatim>\<open>batch.put_item(Item=item)\<close> has no condition.
\<close>

record item =
  metricId :: string
  timestamp :: int
  item_value :: decimal
  sourceDate :: string
  item_unit :: "string option"

type_synonym table = "string \<times> int \<rightharpoonup> item"

definition put_item :: "table \<Rightarrow> item \<Rightarrow> table" where
  "put_item t it = t((metricId it, timestamp it) \<mapsto> it)"

definition put_items :: "table \<Rightarrow> item list \<Rightarrow> table" where
  "put_items t its = foldl put_item t its"

text \<open>
  What a storing loop did: the items it put, in order, and the exception that left the
  loop, if any. Leaving the \<^verbatim>\<open>with table.batch_writer()\<close> block flushes the items put so
  far, also when an exception leaves it.
\<close>

type_synonym batch = "item list \<times> exn option"

definition batch_cons :: "item \<Rightarrow> batch \<Rightarrow> batch" where
  "batch_cons it b = (it # fst b, snd b)"

text \<open>
  \<^verbatim>\<open>pd.isna(v)\<close> as the condition of an \<^verbatim>\<open>if\<close>: true on \<^verbatim>\<open>None\<close> and on a float NaN, false
  on every other scalar and on a dict.
\<close>

definition isna :: "pylib \<Rightarrow> json \<Rightarrow> exn + bool" where
  "isna lib v = (case v of
       JNull \<Rightarrow> Inr True
     | JNum x \<Rightarrow> Inr (x = NaN)
     | JArr xs \<Rightarrow> isna_list lib xs
     | _ \<Rightarrow> Inr False)"

section \<open>CMESOFR.py: the frame and the store writer\<close>

text \<open>
  Lines 165 to 169: the rows become a frame and the \<^verbatim>\<open>Date\<close> column is converted. (A JSON
  int in a column that also holds floats or nulls is widened to a float by pandas; the
  model keeps the cell as parsed, which has the same value below \<open>2^53\<close>.)
\<close>

definition with_date :: "json strip_row \<Rightarrow> datetime option \<Rightarrow> datetime option strip_row" where
  "with_date r d = \<lparr> Date = d, Overnight = Overnight r, Term1M = Term1M r, Term3M = Term3M r,
     Term6M = Term6M r, Term1Y = Term1Y r, Avg30 = Avg30 r, Avg90 = Avg90 r,
     Avg180 = Avg180 r, SofrIndex = SofrIndex r \<rparr>"

definition to_frame :: "pylib \<Rightarrow> json strip_row list \<Rightarrow> exn + datetime option strip_row list" where
  "to_frame lib rows =
     (if rows = [] then Inr []
      else bindE (to_datetime lib (map Date rows)) (\<lambda>ds. Inr (map2 with_date rows ds)))"

text \<open>
  What the browser session gave: no session, an exception while loading, text that is
  not JSON, or the parsed JSON.
\<close>

datatype page = SessionSetupFailure | RenderFailure | MalformedPayload | Loaded json

definition fetch_sofr_strip_rates_with_selenium ::
    "pylib \<Rightarrow> page \<Rightarrow> datetime option strip_row list" where
  "fetch_sofr_strip_rates_with_selenium lib pg = (case pg of
       Loaded data \<Rightarrow> (case bindE (normalize_strips data) (to_frame lib) of
           Inl e \<Rightarrow> []
         | Inr df \<Rightarrow> df)
     | _ \<Rightarrow> [])"

definition float_cell :: "pyfloat option \<Rightarrow> json" where
  "float_cell c = (case c of None \<Rightarrow> JNull | Some x \<Rightarrow> JNum x)"

text \<open>\<^verbatim>\<open>metric_mapping\<close>: the column, its \<^verbatim>\<open>metricId\<close> and its unit, in dict order.\<close>

definition metric_mapping ::
    "((datetime option strip_row \<Rightarrow> json) \<times> string \<times> string option) list" where
  "metric_mapping =
     [(\<lambda>r. float_cell (Overnight r), ''SOFR_Overnight'', Some ''%''),
      (\<lambda>r. float_cell (Term1M r), ''SOFR_1M_Term'', Some ''%''),
      (\<lambda>r. float_cell (Term3M r), ''SOFR_3M_Term'', Some ''%''),
      (\<lambda>r. float_cell (Term6M r), ''SOFR_6M_Term'', Some ''%''),
      (\<lambda>r. float_cell (Term1Y r), ''SOFR_1Y_Term'', Some ''%''),
      (Avg30, ''SOFR_30D_Avg'', Some ''%''),
      (Avg90, ''SOFR_90D_Avg'', Some ''%''),
      (Avg180, ''SOFR_180D_Avg'', Some ''%''),
      (SofrIndex, ''SOFR_Index'', None)]"

text \<open>Lines 243 to 264: the items of one row, column by column.\<close>

fun column_items ::
    "pylib \<Rightarrow> int \<Rightarrow> string \<Rightarrow> datetime option strip_row
      \<Rightarrow> ((datetime option strip_row \<Rightarrow> json) \<times> string \<times> string option) list \<Rightarrow> batch" where
  "column_items lib ts sd row [] = ([], None)"
| "column_items lib ts sd row ((cell, mid, u) # cols) =
     (case isna lib (cell row) of
        Inl e \<Rightarrow> ([], Some e)
      | Inr True \<Rightarrow> column_items lib ts sd row cols
      | Inr False \<Rightarrow> (case decimal_of_str (cell row) of
            None \<Rightarrow> column_items lib ts sd row cols
          | Some v \<Rightarrow> batch_cons
              \<lparr> metricId = mid, timestamp = ts, item_value = v, sourceDate = sd, item_unit = u \<rparr>
              (column_items lib ts sd row cols)))"

text \<open>
  Lines 233 to 241: a row without a date is skipped; \<^verbatim>\<open>convert_date_to_utc_timestamp_ms\<close>
  is \<open>epoch_millis\<close>.
\<close>

definition row_items :: "pylib \<Rightarrow> datetime option strip_row \<Rightarrow> batch" where
  "row_items lib row = (case Date row of
       None \<Rightarrow> ([], None)
     | Some d \<Rightarrow> (case epoch_millis d of
           Inl e \<Rightarrow> ([], Some e)
         | Inr ts \<Rightarrow> column_items lib ts (strftime lib ''%Y-%m-%d'' d) row metric_mapping))"

fun frame_items :: "('r \<Rightarrow> batch) \<Rightarrow> 'r list \<Rightarrow> batch" where
  "frame_items f [] = ([], None)"
| "frame_items f (row # rows) = (case f row of
       (its, Some e) \<Rightarrow> (its, Some e)
     | (its, None) \<Rightarrow> (its @ fst (frame_items f rows), snd (frame_items f rows)))"

text \<open>
  The store writers return the table after the batch, and the count of items or the
  exception that escaped.
\<close>

definition run_batch :: "table \<Rightarrow> batch \<Rightarrow> table \<times> (exn + nat)" where
  "run_batch t b = (put_items t (fst b),
     (case snd b of None \<Rightarrow> Inr (length (fst b)) | Some e \<Rightarrow> Inl e))"

text \<open>\<open>None\<close> for the table is \<^verbatim>\<open>table is None\<close>: the connection was not established.\<close>

definition store_sofr_data_in_dynamodb ::
    "pylib \<Rightarrow> table option \<Rightarrow> datetime option strip_row list \<Rightarrow> table option \<times> (exn + nat)" where
  "store_sofr_data_in_dynamodb lib tbl df =
     (if df = [] then (tbl, Inr 0)
      else (case tbl of
          None \<Rightarrow> (None, Inr 0)
        | Some t \<Rightarrow> (case run_batch t (frame_items (row_items lib) df) of
              (t', res) \<Rightarrow> (Some t', res))))"

section \<open>CNBC.py and CNBC_US10YTIP_History.py: the chart-data normalizer\<close>

text \<open>\<^verbatim>\<open>int(v)\<close> on a parsed JSON value.\<close>

definition py_int :: "json \<Rightarrow> exn + int" where
  "py_int v = (case v of
       JInt n \<Rightarrow> Inr n
     | JBool b \<Rightarrow> Inr (if b then 1 else 0)
     | JNum x \<Rightarrow> int_of_float x
     | JStr s \<Rightarrow> (case int_of_string s of None \<Rightarrow> Inl ValueError | Some n \<Rightarrow> Inr n)
     | _ \<Rightarrow> Inl TypeError)"

definition round_half_even :: "rat \<Rightarrow> int" where
  "round_half_even x = (let f = \<lfloor>x\<rfloor>; r = x - of_int f in
     if r < 1 / 2 then f else if 1 / 2 < r then f + 1 else if even f then f else f + 1)"

text \<open>
  \<^verbatim>\<open>datetime.fromtimestamp(t, tz=timezone.utc)\<close> in CPython 3.11 on 64-bit Linux: the
  fraction of \<open>t\<close> is multiplied by \<open>1e6\<close> in floating point and rounded half-even to
  microseconds. A NaN and a year outside 1 to 9999 are a ValueError; beyond the range
  of \<^verbatim>\<open>gmtime\<close> it is an OSError and beyond \<^verbatim>\<open>time_t\<close> an OverflowError.
\<close>

definition fromtimestamp_micros :: "pyfloat \<Rightarrow> exn + int" where
  "fromtimestamp_micros t = (case t of
       NaN \<Rightarrow> Inl ValueError
     | PInf \<Rightarrow> Inl OverflowError
     | NInf \<Rightarrow> Inl OverflowError
     | Fin a \<Rightarrow>
         (case fmul (Fin (a - of_int (trunc a))) (Fin 1000000) of
            Fin f \<Rightarrow>
              (let us = trunc a * 1000000 + round_half_even f; secs = us div 1000000
               in if secs < - (2 ^ 63) \<or> 2 ^ 63 \<le> secs then Inl OverflowError
                  else if secs < - 67768040609740800 \<or> 67767976233532799 < secs then Inl OSError
                  else if secs < - 62135596800 \<or> 253402300799 < secs then Inl ValueError
                  else Inr us)
          | _ \<Rightarrow> Inl OverflowError))"

definition fromtimestamp_utc :: "pyfloat \<Rightarrow> exn + datetime" where
  "fromtimestamp_utc t = bindE (fromtimestamp_micros t) (\<lambda>us.
     Inr \<lparr> micros = us, aware = True \<rparr>)"

text \<open>
  \<^verbatim>\<open>datetime.fromtimestamp(t)\<close>: a naive datetime showing the local wall clock, which
  pandas later reads as if it were UTC.
\<close>

definition fromtimestamp_local :: "pylib \<Rightarrow> pyfloat \<Rightarrow> exn + datetime" where
  "fromtimestamp_local lib t = bindE (fromtimestamp_micros t) (\<lambda>us.
     Inr \<lparr> micros = us + 1000000 * utcoffset lib (us div 1000000), aware = False \<rparr>)"

text \<open>\<^verbatim>\<open>s.replace('%', '')\<close> when \<^verbatim>\<open>'%' in s\<close>.\<close>

definition strip_percent :: "string \<Rightarrow> string" where
  "strip_percent s = (if CHR ''%'' \<in> set s then filter (\<lambda>c. c \<noteq> CHR ''%'') s else s)"

text \<open>\<^verbatim>\<open>except (ValueError, TypeError): continue\<close> around the work on one bar.\<close>

definition skip_on_value_or_type_error :: "exn + 'a option \<Rightarrow> exn + 'a option" where
  "skip_on_value_or_type_error m = (case m of
       Inl e \<Rightarrow> if e = ValueError \<or> e = TypeError then Inr None else Inl e
     | Inr x \<Rightarrow> Inr x)"

text \<open>
  The body of \<^verbatim>\<open>for bar in price_bars\<close> (CNBC.py lines 132 to 161, History lines 115 to
  144): \<open>None\<close> is a skipped bar. \<open>fromts\<close> is the \<^verbatim>\<open>fromtimestamp\<close> of the script.
\<close>

definition process_bar :: "(pyfloat \<Rightarrow> exn + datetime) \<Rightarrow> json \<Rightarrow> exn + bar_row option" where
  "process_bar fromts bar = skip_on_value_or_type_error (
     bindE (dict_get bar ''tradeTimeinMills'') (\<lambda>timestamp_val.
     if timestamp_val = JNull then Inr None
     else
     bindE (py_int timestamp_val) (\<lambda>timestamp_ms.
     bindE (int_truediv timestamp_ms 1000) (\<lambda>secs.
     bindE (fromts secs) (\<lambda>dt_object.
     bindE (get_default bar ''close'' (JStr ''0'')) (\<lambda>close.
     case float_of_str strip_percent close of
       None \<Rightarrow> Inr None
     | Some value_to_store \<Rightarrow> Inr (Some \<lparr> DateTime = dt_object, Value = value_to_store \<rparr>)))))))"

fun process_bars :: "(json \<Rightarrow> exn + bar_row option) \<Rightarrow> json list \<Rightarrow> exn + bar_row list" where
  "process_bars f [] = Inr []"
| "process_bars f (bar # bars) = bindE (f bar) (\<lambda>p.
     bindE (process_bars f bars) (\<lambda>rows.
     Inr (case p of None \<Rightarrow> rows | Some row \<Rightarrow> row # rows)))"

text \<open>
  The test for the path \<^verbatim>\<open>data.chartData.priceBars\<close>; \<open>None\<close> is the structural mismatch.
  Only \<^verbatim>\<open>data.get\<close> on a response that is not a dict raises.
\<close>

definition price_bars_of :: "json \<Rightarrow> exn + json option" where
  "price_bars_of data = bindE (dict_get data ''data'') (\<lambda>d.
     if \<not> (truthy d \<and> is_dict d) then Inr None
     else bindE (dict_get d ''chartData'') (\<lambda>c.
       if \<not> (truthy c \<and> is_dict c) then Inr None
       else bindE (dict_get c ''priceBars'') (\<lambda>pb.
         Inr (if truthy pb then Some pb else None))))"

text \<open>
  What one HTTP request gave: a transport error, a status that \<^verbatim>\<open>raise_for_status\<close>
  rejects, a body that is not JSON, or the parsed body.
\<close>

datatype response = TransportError | StatusError | JsonError | Body json

definition max_retries :: nat where
  "max_retries = 3"

definition retry_delay :: nat where
  "retry_delay = 5"

text \<open>The \<^verbatim>\<open>try\<close> block of one attempt of CNBC.py (lines 113 to 171).\<close>

definition cnbc_attempt :: "pylib \<Rightarrow> response \<Rightarrow> exn + bar_row list" where
  "cnbc_attempt lib r = (case r of
       TransportError \<Rightarrow> Inl RequestException
     | StatusError \<Rightarrow> Inl HTTPError
     | JsonError \<Rightarrow> Inl JSONDecodeError
     | Body data \<Rightarrow> bindE (price_bars_of data) (\<lambda>pb.
         case pb of
           None \<Rightarrow> Inr []
         | Some price_bars \<Rightarrow>
             bindE (py_iter price_bars) (\<lambda>bars.
             bindE (process_bars (process_bar fromtimestamp_utc) bars) (\<lambda>processed_data.
             Inr (if processed_data \<noteq> [] then sort_values lib processed_data
                  else processed_data)))))"

text \<open>
  The retry loop (lines 112 to 186). \<open>net i\<close> is the answer to request number \<open>i\<close>. The
  result is the frame, the number of requests made and the delays slept.
\<close>

fun fetch_loop :: "pylib \<Rightarrow> (nat \<Rightarrow> response) \<Rightarrow> nat \<Rightarrow> nat \<Rightarrow> bar_row list \<times> nat \<times> nat list" where
  "fetch_loop lib net attempt 0 = ([], attempt, [])"
| "fetch_loop lib net attempt (Suc left) = (case cnbc_attempt lib (net attempt) of
       Inr df \<Rightarrow> (df, Suc attempt, [])
     | Inl e \<Rightarrow>
         if attempt + 1 = max_retries then ([], Suc attempt, [])
         else (case fetch_loop lib net (Suc attempt) left of
                 (df, n, slept) \<Rightarrow> (df, n, retry_delay # slept)))"

definition fetch_cnbc_data :: "pylib \<Rightarrow> (nat \<Rightarrow> response) \<Rightarrow> bar_row list \<times> nat \<times> nat list" where
  "fetch_cnbc_data lib net = fetch_loop lib net 0 max_retries"

text \<open>
  \<^verbatim>\<open>fetch_cnbc_data\<close> of CNBC_US10YTIP_History.py (lines 96 to 166): one request, no
  sort, and \<^verbatim>\<open>None\<close> on a failure or a structural mismatch. The result is the frame and
  the number of requests made.
\<close>

definition history_attempt :: "pylib \<Rightarrow> response \<Rightarrow> exn + bar_row list option" where
  "history_attempt lib r = (case r of
       TransportError \<Rightarrow> Inl RequestException
     | StatusError \<Rightarrow> Inl HTTPError
     | JsonError \<Rightarrow> Inl JSONDecodeError
     | Body data \<Rightarrow> bindE (price_bars_of data) (\<lambda>pb.
         case pb of
           None \<Rightarrow> Inr None
         | Some price_bars \<Rightarrow>
             bindE (py_iter price_bars) (\<lambda>bars.
             bindE (process_bars (process_bar (fromtimestamp_local lib)) bars) (\<lambda>processed_data.
             Inr (Some processed_data)))))"

definition history_fetch_cnbc_data :: "pylib \<Rightarrow> (nat \<Rightarrow> response) \<Rightarrow> bar_row list option \<times> nat" where
  "history_fetch_cnbc_data lib net =
     ((case history_attempt lib (net 0) of Inl e \<Rightarrow> None | Inr res \<Rightarrow> res), 1)"

section \<open>The chart-data store writers\<close>

text \<open>
  CNBC.py lines 51 to 79, for one row. The NaN test is \<^verbatim>\<open>pd.isna\<close>; the finiteness test
  is a call into pandas, inside the \<^verbatim>\<open>try\<close> that catches ValueError, TypeError and
  InvalidOperation.
\<close>

definition store_row :: "pylib \<Rightarrow> string \<Rightarrow> string \<Rightarrow> bar_row \<Rightarrow> batch" where
  "store_row lib metric_id_to_store u row =
     (let dt = DateTime row;
          datetime_obj = (if aware dt then dt else dt\<lparr> aware := True \<rparr>)
      in case epoch_millis datetime_obj of
           Inl e \<Rightarrow> ([], Some e)
         | Inr db_timestamp \<Rightarrow>
             if Value row = NaN then ([], None)
             else (case series_is_finite lib (Value row) of
                 Inl e \<Rightarrow> if e = ValueError \<or> e = TypeError \<or> e = InvalidOperation
                          then ([], None) else ([], Some e)
               | Inr False \<Rightarrow> ([], None)
               | Inr True \<Rightarrow>
                   ([\<lparr> metricId = metric_id_to_store, timestamp = db_timestamp,
                       item_value = decimal_of_float (Value row),
                       sourceDate = strftime lib ''%Y-%m-%d %H:%M:%S %Z'' datetime_obj,
                       item_unit = Some u \<rparr>], None)))"

definition store_data_in_dynamodb ::
    "pylib \<Rightarrow> table option \<Rightarrow> bar_row list \<Rightarrow> string \<Rightarrow> string \<Rightarrow> table option \<times> (exn + nat)" where
  "store_data_in_dynamodb lib tbl df metric_id_to_store u =
     (if df = [] then (tbl, Inr 0)
      else (case tbl of
          None \<Rightarrow> (None, Inr 0)
        | Some t \<Rightarrow> (case run_batch t (frame_items (store_row lib metric_id_to_store u) df) of
              (t', res) \<Rightarrow> (Some t', res))))"

text \<open>CNBC_US10YTIP_History.py lines 37 to 59, for one row.\<close>

definition history_store_row :: "pylib \<Rightarrow> string \<Rightarrow> string \<Rightarrow> bar_row \<Rightarrow> batch" where
  "history_store_row lib metric_id_to_store u row =
     (case epoch_millis (DateTime row) of
        Inl e \<Rightarrow> ([], Some e)
      | Inr db_timestamp \<Rightarrow>
          ([\<lparr> metricId = metric_id_to_store, timestamp = db_timestamp,
              item_value = decimal_of_float (Value row),
              sourceDate = strftime lib ''%Y-%m-%d %H:%M:%S'' (DateTime row),
              item_unit = Some u \<rparr>], None))"

definition store_yield_data_in_dynamodb ::
    "pylib \<Rightarrow> table \<Rightarrow> bar_row list option \<Rightarrow> string \<Rightarrow> string \<Rightarrow> table \<times> (exn + nat)" where
  "store_yield_data_in_dynamodb lib t df metric_id_to_store u = (case df of
       None \<Rightarrow> (t, Inr 0)
     | Some rows \<Rightarrow>
         if rows = [] then (t, Inr 0)
         else run_batch t (frame_items (history_store_row lib metric_id_to_store u) rows))"

section \<open>The three main programs\<close>

text \<open>
  A run of a script: the exit status (1 when an exception is not caught or \<^verbatim>\<open>exit(1)\<close>
  is called), whether the fetcher was called, and the table afterwards (\<open>None\<close> when no
  connection was established). The connection attempt at start-up is an input: \<open>None\<close>
  when \<^verbatim>\<open>boto3.resource\<close> or \<^verbatim>\<open>dynamodb.Table\<close> raises, else the table as it stands.
\<close>

record run =
  exit_status :: nat
  fetch_called :: bool
  table_after :: "table option"

text \<open>
  CMESOFR.py: a failed connection leaves \<^verbatim>\<open>table = None\<close> (lines 35 to 38) and the script
  goes on; the fetcher is called first (line 274), and the store writer only
  \<^verbatim>\<open>if table:\<close> (line 284).
\<close>

definition cmesofr_main :: "pylib \<Rightarrow> table option \<Rightarrow> page \<Rightarrow> run" where
  "cmesofr_main lib conn pg =
     (let sofr_data_selenium_df = fetch_sofr_strip_rates_with_selenium lib pg
      in if sofr_data_selenium_df \<noteq> [] then
           (case conn of
              Some t \<Rightarrow> (case store_sofr_data_in_dynamodb lib conn sofr_data_selenium_df of
                 (tbl, Inr items_written) \<Rightarrow>
                   \<lparr> exit_status = 0, fetch_called = True, table_after = tbl \<rparr>
               | (tbl, Inl e) \<Rightarrow>
                   \<lparr> exit_status = 1, fetch_called = True, table_after = tbl \<rparr>)
            | None \<Rightarrow> \<lparr> exit_status = 0, fetch_called = True, table_after = None \<rparr>)
         else \<lparr> exit_status = 0, fetch_called = True, table_after = conn \<rparr>)"

text \<open>
  CNBC.py: a failed connection is re-raised at import (lines 30 to 34), before the main
  block; the main block also exits with 1 when there is no table (lines 197 to 199).
\<close>

definition cnbc_main :: "pylib \<Rightarrow> table option \<Rightarrow> (nat \<Rightarrow> response) \<Rightarrow> string \<Rightarrow> string \<Rightarrow> run" where
  "cnbc_main lib conn net metric_id u = (case conn of
       None \<Rightarrow> \<lparr> exit_status = 1, fetch_called = False, table_after = None \<rparr>
     | Some t \<Rightarrow>
         (let df_data = fst (fetch_cnbc_data lib net)
          in if df_data \<noteq> [] then
               (case store_data_in_dynamodb lib conn df_data metric_id u of
                  (tbl, Inr items_written) \<Rightarrow>
                    \<lparr> exit_status = 0, fetch_called = True, table_after = tbl \<rparr>
                | (tbl, Inl e) \<Rightarrow>
                    \<lparr> exit_status = 1, fetch_called = True, table_after = tbl \<rparr>)
             else \<lparr> exit_status = 0, fetch_called = True, table_after = conn \<rparr>))"

text \<open>
  CNBC_US10YTIP_History.py: the connection is made at import without a \<^verbatim>\<open>try\<close> (lines 23
  to 25), so a failure ends the script before the main block.
\<close>

definition history_main :: "pylib \<Rightarrow> table option \<Rightarrow> (nat \<Rightarrow> response) \<Rightarrow> run" where
  "history_main lib conn net = (case conn of
       None \<Rightarrow> \<lparr> exit_status = 1, fetch_called = False, table_after = None \<rparr>
     | Some t \<Rightarrow>
         (let df_tips_data = fst (history_fetch_cnbc_data lib net)
          in if df_tips_data \<noteq> None \<and> df_tips_data \<noteq> Some [] then
               (case store_yield_data_in_dynamodb lib t df_tips_data ''CNBC_US10YTIP_Close'' ''%'' of
                  (t', Inr items_written) \<Rightarrow>
                    \<lparr> exit_status = 0, fetch_called = True, table_after = Some t' \<rparr>
                | (t', Inl e) \<Rightarrow>
                    \<lparr> exit_status = 1, fetch_called = True, table_after = Some t' \<rparr>)
             else \<lparr> exit_status = 0, fetch_called = True, table_after = Some t \<rparr>))"

section \<open>Definitions used to state the properties\<close>

text \<open>The timestamp label of a rate entry: its \<^verbatim>\<open>timestamp\<close> string, empty when missing.\<close>

definition timestamp_label :: "json \<Rightarrow> string" where
  "timestamp_label r = (case timestamp_of r of Inr s \<Rightarrow> s | Inl e \<Rightarrow> [])"

text \<open>
  The tie-break rule in the words of the specification: restrict to the same-day
  candidates; among them prefer the first with the hour marker, else the first; with no
  same-day candidate, the first candidate in original order.
\<close>

definition spec_select :: "string \<Rightarrow> json list \<Rightarrow> json" where
  "spec_select d L =
     (let same_day = filter (\<lambda>r. prefix d (timestamp_label r)) L
      in if same_day = [] then hd L
         else (case find (\<lambda>r. sublist ''T10:00'' (timestamp_label r)) same_day of
                 Some r \<Rightarrow> r
               | None \<Rightarrow> hd same_day))"

text \<open>
  The candidates of a term among the rate entries of a day, in original order, and the
  cell of a term in a normalized row.
\<close>

definition candidates :: "string \<Rightarrow> json list \<Rightarrow> json list" where
  "candidates k xs = filter (\<lambda>x. dict_get x ''term'' = Inr (JStr k)) xs"

definition term_cell :: "string \<Rightarrow> 'd strip_row \<Rightarrow> pyfloat option" where
  "term_cell k r = (if k = ''1M'' then Term1M r else if k = ''3M'' then Term3M r
     else if k = ''6M'' then Term6M r else if k = ''1Y'' then Term1Y r else None)"

text \<open>Mapping a function that may raise over a list, stopping at the first exception.\<close>

fun mapE :: "('a \<Rightarrow> exn + 'b) \<Rightarrow> 'a list \<Rightarrow> exn + 'b list" where
  "mapE f [] = Inr []"
| "mapE f (x # xs) = bindE (f x) (\<lambda>y. bindE (mapE f xs) (\<lambda>ys. Inr (y # ys)))"


subsection \<open>A sample of the library calls, for worked examples\<close>

text \<open>
  Days since the epoch of a civil date, and the reading of an ISO date \<^verbatim>\<open>YYYY-MM-DD\<close> as
  midnight of that day.
\<close>

definition days_from_civil :: "int \<Rightarrow> int \<Rightarrow> int \<Rightarrow> int" where
  "days_from_civil y m d =
     (let y' = (if m \<le> 2 then y - 1 else y);
          era = y' div 400;
          yoe = y' - era * 400;
          doy = (153 * (if 2 < m then m - 3 else m + 9) + 2) div 5 + d - 1;
          doe = yoe * 365 + yoe div 4 - yoe div 100 + doy
      in era * 146097 + doe - 719468)"

definition iso_date :: "json \<Rightarrow> exn + datetime option" where
  "iso_date v = (case v of
       JNull \<Rightarrow> Inr None
     | JStr s \<Rightarrow>
         if length s = 10 \<and> s ! 4 = CHR ''-'' \<and> s ! 7 = CHR ''-''
            \<and> list_all is_digit (take 4 s @ take 2 (drop 5 s) @ drop 8 s)
         then Inr (Some \<lparr> micros = days_from_civil (int_of_digits (take 4 s))
                               (int_of_digits (take 2 (drop 5 s)))
                               (int_of_digits (drop 8 s)) * 86400000000,
                            aware = False \<rparr>)
         else Inl ValueError
     | _ \<Rightarrow> Inl TypeError)"

text \<open>
  In the sample, dates are ISO dates, the finiteness test raises the AttributeError of
  pandas, a list cell of two or more elements has no truth value, the sort is the
  stable insertion sort, the local zone is UTC, and the date text (informational only)
  is the format.
\<close>

definition sample_lib :: pylib where
  "sample_lib = \<lparr>
     to_datetime = mapE iso_date,
     strftime = (\<lambda>fmt dt. fmt),
     isna_list = (\<lambda>xs. if 2 \<le> length xs then Inl ValueError else Inr False),
     series_is_finite = (\<lambda>x. Inl AttributeError),
     sort_values = sort_key (\<lambda>r. micros (DateTime r)),
     utcoffset = (\<lambda>s. 0) \<rparr>"

text \<open>The time by which the rows of a chart-data frame are compared.\<close>

definition row_time :: "bar_row \<Rightarrow> int" where
  "row_time r = micros (DateTime r)"

text \<open>The three ways a request fails, and a run that exits normally.\<close>

definition request_failed :: "response \<Rightarrow> bool" where
  "request_failed r = (r = TransportError \<or> r = StatusError \<or> r = JsonError)"

definition page_failed :: "page \<Rightarrow> bool" where
  "page_failed pg = (pg = SessionSetupFailure \<or> pg = RenderFailure \<or> pg = MalformedPayload)"

text \<open>A chart-data response holding the given price bars.\<close>

definition chart_payload :: "json list \<Rightarrow> json" where
  "chart_payload bars =
     JObj [(''data'', JObj [(''chartData'', JObj [(''priceBars'', JArr bars)])])]"

section \<open>Properties of the strip-rate normalizer\<close>

subsection \<open>Term selection\<close>

lemma on_date_filter:
  "\<forall>r \<in> set L. \<exists>s. timestamp_of r = Inr s \<Longrightarrow>
   on_date (JStr d) L = Inr (filter (\<lambda>r. prefix d (timestamp_label r)) L)"
  by (induction L) (auto simp: bindE_def timestamp_label_def)

lemma find_filter_hd:
  "find P xs = (if filter P xs = [] then None else Some (hd (filter P xs)))"
  by (induction xs) auto

lemma has_t10_label:
  "timestamp_of r = Inr s \<Longrightarrow> has_t10 r = sublist ''T10:00'' (timestamp_label r)"
  by (simp add: has_t10_def timestamp_label_def)

lemma filter_has_t10:
  "\<forall>r \<in> set xs. \<exists>s. timestamp_of r = Inr s \<Longrightarrow>
   filter has_t10 xs = filter (\<lambda>r. sublist ''T10:00'' (timestamp_label r)) xs"
  by (rule filter_cong) (auto simp: has_t10_label)

lemma prefer_t10:
  assumes "\<forall>r \<in> set S. \<exists>s. timestamp_of r = Inr s"
  shows "(let t10_rates = filter has_t10 S
          in if t10_rates \<noteq> [] then Inr (hd t10_rates) else Inr (hd S)) =
         (Inr (case find (\<lambda>r. sublist ''T10:00'' (timestamp_label r)) S of
                 Some r \<Rightarrow> r | None \<Rightarrow> hd S) :: exn + json)"
  by (simp add: filter_has_t10[OF assms] find_filter_hd Let_def)

lemma select_rate_info_spec:
  assumes "L \<noteq> []" and "\<forall>r \<in> set L. \<exists>s. timestamp_of r = Inr s"
  shows "select_rate_info (JStr d) L = Inr (spec_select d L)"
proof (cases L)
  case Nil
  with assms show ?thesis by simp
next
  case (Cons r rs)
  show ?thesis
  proof (cases rs)
    case Nil
    with Cons show ?thesis
      by (simp add: select_rate_info_def spec_select_def find_filter_hd)
  next
    case (Cons r' rs')
    let ?same = "filter (\<lambda>r. prefix d (timestamp_label r)) L"
    have od: "on_date (JStr d) L = Inr ?same"
      using assms(2) by (rule on_date_filter)
    have wt: "\<forall>r \<in> set ?same. \<exists>s. timestamp_of r = Inr s"
      using assms(2) by auto
    have sel: "select_rate_info (JStr d) L =
        bindE (on_date (JStr d) L) (\<lambda>on_date_rates.
         if on_date_rates \<noteq> [] then
           (let t10_rates = filter has_t10 on_date_rates
            in if t10_rates \<noteq> [] then Inr (hd t10_rates) else Inr (hd on_date_rates))
         else Inr (hd L))"
      unfolding \<open>L = r # rs\<close> Cons select_rate_info_def by (simp only: list.case)
    show ?thesis
    proof (cases "?same = []")
      case True
      then show ?thesis
        unfolding sel od by (simp add: bindE_def spec_select_def)
    next
      case False
      have "select_rate_info (JStr d) L =
          (let t10_rates = filter has_t10 ?same
           in if t10_rates \<noteq> [] then Inr (hd t10_rates) else Inr (hd ?same))"
        unfolding sel od using False by (simp add: bindE_def)
      also have "\<dots> = Inr (case find (\<lambda>r. sublist ''T10:00'' (timestamp_label r)) ?same of
                 Some r \<Rightarrow> r | None \<Rightarrow> hd ?same)"
        by (rule prefer_t10[OF wt])
      also have "\<dots> = Inr (spec_select d L)"
        using False by (simp add: spec_select_def Let_def)
      finally show ?thesis .
    qed
  qed
qed

lemma on_date_timestamps:
  "on_date (JStr d) L = Inr K \<Longrightarrow> \<forall>r \<in> set L. \<exists>s. timestamp_of r = Inr s"
proof (induction L arbitrary: K)
  case Nil
  then show ?case by simp
next
  case (Cons r rs)
  then show ?case
    by (auto simp: bindE_def split: sum.splits)
qed

lemma spec_select_single: "spec_select d [r] = r"
  by (simp add: spec_select_def find_filter_hd)

text \<open>Whenever the selection returns, it returns the candidate the rule names.\<close>

lemma select_rate_info_result:
  assumes "select_rate_info (JStr d) L = Inr sel"
  shows "sel = spec_select d L"
proof (cases L)
  case Nil
  with assms show ?thesis by (simp add: select_rate_info_def)
next
  case (Cons a as)
  show ?thesis
  proof (cases as)
    case Nil
    with assms Cons show ?thesis
      by (simp add: select_rate_info_def spec_select_single)
  next
    case (Cons b bs)
    with \<open>L = a # as\<close> have L: "L = a # b # bs" by simp
    have "\<exists>K. on_date (JStr d) L = Inr K"
    proof (cases "on_date (JStr d) L")
      case (Inl e)
      with assms show ?thesis
        unfolding select_rate_info_def L by (simp only: list.case bindE_def sum.case) simp
    next
      case (Inr K)
      then show ?thesis by blast
    qed
    then obtain K where "on_date (JStr d) L = Inr K" by blast
    from on_date_timestamps[OF this] have "\<forall>r \<in> set L. \<exists>s. timestamp_of r = Inr s" .
    from select_rate_info_spec[OF _ this, of d] L assms show ?thesis by simp
  qed
qed

lemma spec_select_mem:
  assumes "L \<noteq> []"
  shows "spec_select d L \<in> set L"
proof -
  let ?same = "filter (\<lambda>r. prefix d (timestamp_label r)) L"
  show ?thesis
  proof (cases "?same = []")
    case True
    with assms show ?thesis by (simp add: spec_select_def)
  next
    case False
    let ?t10 = "filter (\<lambda>r. sublist ''T10:00'' (timestamp_label r)) ?same"
    have same: "hd ?same \<in> set L"
      using hd_in_set[OF False] by (metis filter_is_subset subsetD)
    show ?thesis
    proof (cases "?t10 = []")
      case True
      with False same show ?thesis
        by (simp add: spec_select_def find_filter_hd Let_def)
    next
      case t: False
      from hd_in_set[OF t] have "hd ?t10 \<in> set ?same" by (metis filter_is_subset subsetD)
      then have "hd ?t10 \<in> set L" by (metis filter_is_subset subsetD)
      with False t show ?thesis
        by (simp add: spec_select_def find_filter_hd Let_def)
    qed
  qed
qed

subsection \<open>The candidates of a term\<close>

text \<open>
  Grouping keeps, under each term, the entries carrying that term in original order;
  the keys of the groups are distinct and no group is empty.
\<close>

lemma add_to_group_keys:
  "fst ` set (add_to_group t r g) = insert t (fst ` set g)"
proof (induction g)
  case Nil
  show ?case by simp
next
  case (Cons a g)
  obtain k L where a: "a = (k, L)" by (cases a)
  from Cons show ?case
    unfolding a by (cases "k = t") auto
qed

lemma add_to_group_distinct:
  "distinct (map fst g) \<Longrightarrow> distinct (map fst (add_to_group t r g))"
proof (induction g)
  case Nil
  then show ?case by simp
next
  case (Cons a g)
  obtain k L where a: "a = (k, L)" by (cases a)
  from Cons show ?case
    unfolding a using add_to_group_keys[of t r g] by (auto simp: image_iff)
qed

lemma add_to_group_lookup:
  "map_of (add_to_group t r g) k =
     (if k = t then Some ((case map_of g t of None \<Rightarrow> [] | Some L \<Rightarrow> L) @ [r]) else map_of g k)"
  by (induction g) auto

lemma add_to_group_nonempty:
  "\<forall>(k, L) \<in> set g. L \<noteq> [] \<Longrightarrow> \<forall>(k, L) \<in> set (add_to_group t r g). L \<noteq> []"
proof (induction g)
  case Nil
  show ?case by simp
next
  case (Cons a g)
  obtain k L where a: "a = (k, L)" by (cases a)
  from Cons show ?case
    unfolding a by (cases "k = t") auto
qed

lemma group_by_term_groups:
  assumes "group_by_term xs g = Inr g'" and "distinct (map fst g)"
      and "\<forall>(k, L) \<in> set g. L \<noteq> []" and "k \<noteq> []"
  shows "distinct (map fst g') \<and> (\<forall>(k, L) \<in> set g'. L \<noteq> [])
       \<and> (case map_of g' k of None \<Rightarrow> [] | Some L \<Rightarrow> L)
           = (case map_of g k of None \<Rightarrow> [] | Some L \<Rightarrow> L) @ candidates k xs"
  using assms
proof (induction xs arbitrary: g)
  case Nil
  then show ?case by (simp add: candidates_def)
next
  case (Cons x xs)
  from Cons.prems(1) obtain t where t: "dict_get x ''term'' = Inr t"
    by (cases "dict_get x ''term''") (simp_all add: bindE_def)
  show ?case
  proof (cases "\<exists>s. t = JStr s \<and> s \<noteq> []")
    case True
    then obtain s where s: "t = JStr s" "s \<noteq> []" by blast
    with Cons.prems(1) t have g: "group_by_term xs (add_to_group s x g) = Inr g'"
      by (simp add: bindE_def)
    from Cons.IH[OF g add_to_group_distinct[OF Cons.prems(2)]
        add_to_group_nonempty[OF Cons.prems(3)] Cons.prems(4)]
    have ih: "distinct (map fst g')" "\<forall>(k, L) \<in> set g'. L \<noteq> []"
      "(case map_of g' k of None \<Rightarrow> [] | Some L \<Rightarrow> L)
         = (case map_of (add_to_group s x g) k of None \<Rightarrow> [] | Some L \<Rightarrow> L) @ candidates k xs"
      by auto
    have "(case map_of (add_to_group s x g) k of None \<Rightarrow> [] | Some L \<Rightarrow> L) @ candidates k xs
        = (case map_of g k of None \<Rightarrow> [] | Some L \<Rightarrow> L) @ candidates k (x # xs)"
      using t s by (auto simp: add_to_group_lookup candidates_def)
    with ih show ?thesis by simp
  next
    case False
    with Cons.prems(1) t have g: "group_by_term xs g = Inr g'"
      by (cases t) (auto simp: bindE_def split: if_splits)
    from False t Cons.prems(4) have "candidates k (x # xs) = candidates k xs"
      by (auto simp: candidates_def)
    with Cons.IH[OF g Cons.prems(2,3,4)] show ?thesis by simp
  qed
qed

lemma select_terms_frame:
  assumes "select_terms d g m = Inr m'" and "k \<notin> fst ` set g"
  shows "m' k = m k"
  using assms
proof (induction g arbitrary: m)
  case Nil
  then show ?case by simp
next
  case (Cons a g)
  obtain t L where a: "a = (t, L)" by (cases a)
  from Cons.prems(2) a have k: "k \<noteq> t" "k \<notin> fst ` set g" by auto
  show ?case
  proof (cases "t \<in> set recognized_terms")
    case False
    with Cons.prems(1) a have "select_terms d g m = Inr m'" by simp
    from Cons.IH[OF this k(2)] show ?thesis .
  next
    case True
    with Cons.prems(1) a obtain sel p where
      rest: "select_terms d g (case p of None \<Rightarrow> m | Some x \<Rightarrow> m(t \<mapsto> x)) = Inr m'"
      by (auto simp: bindE_def split: sum.splits)
    from Cons.IH[OF rest k(2)] k(1) show ?thesis
      by (cases p) auto
  qed
qed

lemma select_terms_cell:
  assumes "select_terms (JStr d) g m = Inr m'" and "distinct (map fst g)"
      and "k \<in> set recognized_terms" and "map_of g k = Some L"
  shows "select_rate_info (JStr d) L = Inr (spec_select d L)
       \<and> (\<exists>p. rate_price (spec_select d L) = Inr p
              \<and> m' k = (case p of None \<Rightarrow> m k | Some x \<Rightarrow> Some x))"
  using assms
proof (induction g arbitrary: m)
  case Nil
  then show ?case by simp
next
  case (Cons a g)
  obtain t L' where a: "a = (t, L')" by (cases a)
  from Cons.prems(2) a have d: "t \<notin> fst ` set g" "distinct (map fst g)" by auto
  show ?case
  proof (cases "t = k")
    case True
    with Cons.prems(4) a have L: "L' = L" by simp
    from True Cons.prems(1,3) a L obtain sel p where
      sel: "select_rate_info (JStr d) L = Inr sel" and p: "rate_price sel = Inr p"
      and rest: "select_terms (JStr d) g (case p of None \<Rightarrow> m | Some x \<Rightarrow> m(k \<mapsto> x)) = Inr m'"
      by (auto simp: bindE_def split: sum.splits)
    from select_rate_info_result[OF sel] have s: "sel = spec_select d L" .
    from select_terms_frame[OF rest] d(1) True
    have "m' k = (case p of None \<Rightarrow> m | Some x \<Rightarrow> m(k \<mapsto> x)) k" by blast
    then have "m' k = (case p of None \<Rightarrow> m k | Some x \<Rightarrow> Some x)"
      by (cases p) auto
    with sel p s show ?thesis by blast
  next
    case False
    with Cons.prems(4) a have mk: "map_of g k = Some L" by simp
    show ?thesis
    proof (cases "t \<in> set recognized_terms")
      case nr: False
      with Cons.prems(1) a have "select_terms (JStr d) g m = Inr m'" by simp
      from Cons.IH[OF this d(2) Cons.prems(3) mk] show ?thesis .
    next
      case True
      with Cons.prems(1) a obtain sel p where
        rest: "select_terms (JStr d) g (case p of None \<Rightarrow> m | Some x \<Rightarrow> m(t \<mapsto> x)) = Inr m'"
        by (auto simp: bindE_def split: sum.splits)
      have e: "(case p of None \<Rightarrow> m | Some x \<Rightarrow> m(t \<mapsto> x)) k = m k"
        using False by (cases p) auto
      from Cons.IH[OF rest d(2) Cons.prems(3) mk] show ?thesis
        unfolding e .
    qed
  qed
qed

lemma recognized_nonempty: "k \<in> set recognized_terms \<Longrightarrow> k \<noteq> []"
  by (auto simp: recognized_terms_def)

lemma term_rates_cell:
  assumes "term_rates_of (JStr d) (JObj kvs) = Inr m"
      and "map_of kvs ''rates'' = Some (JObj rs)" and "map_of rs ''sofrRatesFixing'' = Some (JArr xs)"
      and "k \<in> set recognized_terms"
  shows "(candidates k xs = [] \<longrightarrow> m k = None)
       \<and> (candidates k xs \<noteq> [] \<longrightarrow>
            select_rate_info (JStr d) (candidates k xs) = Inr (spec_select d (candidates k xs))
          \<and> rate_price (spec_select d (candidates k xs)) = Inr (m k))"
proof -
  have fx: "fixing_of (JObj kvs) = Inr (Some (JArr xs))"
    using assms(2,3) by (simp add: fixing_of_def)
  from assms(1) obtain g where g: "group_by_term xs [] = Inr g"
    and st: "select_terms (JStr d) g Map.empty = Inr m"
    unfolding term_rates_of_def fx
    by (auto simp: bindE_def py_iter_def split: sum.splits)
  from group_by_term_groups[OF g _ _ recognized_nonempty[OF assms(4)]]
  have gr: "distinct (map fst g)" "\<forall>(k, L) \<in> set g. L \<noteq> []"
    "(case map_of g k of None \<Rightarrow> [] | Some L \<Rightarrow> L) = candidates k xs"
    by auto
  show ?thesis
  proof (cases "map_of g k")
    case None
    then have "k \<notin> fst ` set g" by (simp add: map_of_eq_None_iff)
    from select_terms_frame[OF st this] None gr(3) show ?thesis by simp
  next
    case (Some L)
    with gr(3) have L: "L = candidates k xs" by simp
    from Some have "(k, L) \<in> set g" by (rule map_of_SomeD)
    with gr(2) have "L \<noteq> []" by auto
    from select_terms_cell[OF st gr(1) assms(4) Some] obtain p where
      "select_rate_info (JStr d) L = Inr (spec_select d L)"
      "rate_price (spec_select d L) = Inr p" "m k = (case p of None \<Rightarrow> None | Some x \<Rightarrow> Some x)"
      by auto
    moreover then have "m k = p" by (cases p) auto
    ultimately show ?thesis using L \<open>L \<noteq> []\<close> by simp
  qed
qed

lemma normalize_day_terms:
  assumes "normalize_day (JObj kvs) = Inr r"
  shows "\<exists>m. term_rates_of (case map_of kvs ''date'' of None \<Rightarrow> JNull | Some v \<Rightarrow> v) (JObj kvs) = Inr m
           \<and> (\<forall>k \<in> set recognized_terms. term_cell k r = m k)"
  using assms
  by (auto simp: normalize_day_def bindE_def dict_get_def get_default_def term_cell_def
      recognized_terms_def split: sum.splits)

text \<open>
  Claim C3. Take a day record whose date label is the string \<open>d\<close> and whose
  \<^verbatim>\<open>rates.sofrRatesFixing\<close> is a list of entries, and a recognized term \<open>k\<close>; the
  candidates are the entries of that term, in original order. When the normalizer
  returns a row and there is at least one candidate, the selection returns the
  candidate that the rule of the specification names (among the candidates whose
  timestamp starts with \<open>d\<close> the first containing \<^verbatim>\<open>T10:00\<close>, else the first of them, and
  with no such candidate the first candidate), which is one of the candidates, and the
  cell of the term in the row is the price of that candidate. With no candidate the
  cell is empty.
\<close>

theorem normalizer_selects_by_rule:
  assumes "normalize_day (JObj kvs) = Inr r"
      and "map_of kvs ''date'' = Some (JStr d)"
      and "map_of kvs ''rates'' = Some (JObj rs)"
      and "map_of rs ''sofrRatesFixing'' = Some (JArr xs)"
      and "k \<in> set recognized_terms"
  shows "(candidates k xs = [] \<longrightarrow> term_cell k r = None)
       \<and> (candidates k xs \<noteq> [] \<longrightarrow>
            select_rate_info (JStr d) (candidates k xs) = Inr (spec_select d (candidates k xs))
          \<and> spec_select d (candidates k xs) \<in> set (candidates k xs)
          \<and> rate_price (spec_select d (candidates k xs)) = Inr (term_cell k r))"
proof -
  from normalize_day_terms[OF assms(1)] assms(2,5) obtain m where
    m: "term_rates_of (JStr d) (JObj kvs) = Inr m" "term_cell k r = m k"
    by auto
  from term_rates_cell[OF m(1) assms(3,4,5)] spec_select_mem[of "candidates k xs" d] m(2)
  show ?thesis by simp
qed

text \<open>
  The example of the specification, with the 14:00 entry first: the 10:00 entry is
  selected, and the 1M cell of the row is its price, the float 5.31.
\<close>

theorem normalizer_selects_by_rule_witness:
  "\<exists>r. normalize_day (JObj [(''date'', JStr ''2024-01-02''),
            (''rates'', JObj [(''sofrRatesFixing'', JArr
               [JObj [(''term'', JStr ''1M''), (''price'', JStr ''5.33''),
                      (''timestamp'', JStr ''2024-01-02T14:00:00Z'')],
                JObj [(''term'', JStr ''1M''), (''price'', JStr ''5.31''),
                      (''timestamp'', JStr ''2024-01-02T10:00:00Z'')]])])]) = Inr r
     \<and> select_rate_info (JStr ''2024-01-02'')
          [JObj [(''term'', JStr ''1M''), (''price'', JStr ''5.33''),
                 (''timestamp'', JStr ''2024-01-02T14:00:00Z'')],
           JObj [(''term'', JStr ''1M''), (''price'', JStr ''5.31''),
                 (''timestamp'', JStr ''2024-01-02T10:00:00Z'')]]
         = Inr (JObj [(''term'', JStr ''1M''), (''price'', JStr ''5.31''),
                      (''timestamp'', JStr ''2024-01-02T10:00:00Z'')])
     \<and> Term1M r = Some (Fin (5978528505334333 / 1125899906842624))"
proof -
  let ?a = "JObj [(''term'', JStr ''1M''), (''price'', JStr ''5.33''),
                  (''timestamp'', JStr ''2024-01-02T14:00:00Z'')]"
  let ?b = "JObj [(''term'', JStr ''1M''), (''price'', JStr ''5.31''),
                  (''timestamp'', JStr ''2024-01-02T10:00:00Z'')]"
  let ?rs = "[(''sofrRatesFixing'', JArr [?a, ?b])]"
  let ?kvs = "[(''date'', JStr ''2024-01-02''), (''rates'', JObj ?rs)]"
  have ok: "(case normalize_day (JObj ?kvs) of Inr r \<Rightarrow> True | Inl e \<Rightarrow> False)"
    by code_simp
  then obtain r where r: "normalize_day (JObj ?kvs) = Inr r"
    by (cases "normalize_day (JObj ?kvs)") simp_all
  have c: "candidates ''1M'' [?a, ?b] = [?a, ?b]"
    by code_simp
  have sp: "spec_select ''2024-01-02'' [?a, ?b] = ?b"
    by code_simp
  have pr: "rate_price ?b = Inr (Some (Fin (5978528505334333 / 1125899906842624)))"
    by code_simp
  have k: "''1M'' \<in> set recognized_terms"
    by (simp add: recognized_terms_def)
  have d: "map_of ?kvs ''date'' = Some (JStr ''2024-01-02'')"
    and f: "map_of ?kvs ''rates'' = Some (JObj ?rs)"
    and x: "map_of ?rs ''sofrRatesFixing'' = Some (JArr [?a, ?b])"
    by simp_all
  from normalizer_selects_by_rule[OF r d f x k]
  have "select_rate_info (JStr ''2024-01-02'') [?a, ?b] = Inr ?b"
    and "Term1M r = Some (Fin (5978528505334333 / 1125899906842624))"
    unfolding c sp pr by (simp_all add: term_cell_def)
  with r show ?thesis by blast
qed

subsection \<open>Truncation to five days\<close>

lemma process_days_take:
  "process_days i days = mapE normalize_day (take (5 - i) days)"
proof (induction days arbitrary: i)
  case Nil
  show ?case by simp
next
  case (Cons day rest)
  show ?case
  proof (cases "5 \<le> i")
    case True
    then show ?thesis by simp
  next
    case False
    then have "5 - i = Suc (5 - Suc i)" by simp
    with False Cons show ?thesis by simp
  qed
qed

lemma mapE_length: "mapE f xs = Inr ys \<Longrightarrow> length ys = length xs"
  by (induction xs arbitrary: ys) (auto simp: bindE_def split: sum.splits)

lemma mapE_nth: "mapE f xs = Inr ys \<Longrightarrow> i < length xs \<Longrightarrow> f (xs ! i) = Inr (ys ! i)"
proof (induction xs arbitrary: ys i)
  case Nil
  then show ?case by simp
next
  case (Cons x xs)
  then show ?case
    by (cases i) (auto simp: bindE_def split: sum.splits)
qed

text \<open>
  Claim C8. For a payload whose \<^verbatim>\<open>resultsStrip\<close> is the list \<open>days\<close>, the normalizer
  gives exactly what it gives on the first five day records: the later records are never
  looked at, and when it returns rows there are \<open>min 5 (length days)\<close> of them, row \<open>i\<close>
  being the normalized day record \<open>i\<close>.
\<close>

theorem first_five_days_only:
  assumes "map_of kvs ''resultsStrip'' = Some (JArr days)"
  shows "normalize_strips (JObj kvs) = mapE normalize_day (take 5 days)
       \<and> normalize_strips (JObj kvs) = normalize_strips (JObj [(''resultsStrip'', JArr (take 5 days))])
       \<and> (\<forall>rows. normalize_strips (JObj kvs) = Inr rows \<longrightarrow>
             length rows = min 5 (length days)
           \<and> (\<forall>i < length rows. normalize_day (days ! i) = Inr (rows ! i)))"
proof -
  have a: "normalize_strips (JObj kvs) = mapE normalize_day (take 5 days)"
    using assms by (simp add: normalize_strips_def py_iter_def bindE_def process_days_take)
  have b: "normalize_strips (JObj [(''resultsStrip'', JArr (take 5 days))]) =
      mapE normalize_day (take 5 days)"
    by (simp add: normalize_strips_def py_iter_def bindE_def process_days_take)
  have c: "length rows = min 5 (length days)
      \<and> (\<forall>i < length rows. normalize_day (days ! i) = Inr (rows ! i))"
    if "normalize_strips (JObj kvs) = Inr rows" for rows
  proof -
    from that a have m: "mapE normalize_day (take 5 days) = Inr rows" by simp
    from mapE_length[OF m] have l: "length rows = min 5 (length days)"
      by (simp add: min.commute)
    have "normalize_day (days ! i) = Inr (rows ! i)" if "i < length rows" for i
      using mapE_nth[OF m, of i] that l by simp
    with l show ?thesis by blast
  qed
  from a b c show ?thesis by simp
qed

text \<open>Eight day records give the rows of the first five.\<close>

theorem first_five_days_only_witness:
  "(case normalize_strips (JObj [(''resultsStrip'', JArr
       [JObj [(''date'', JStr ''2024-01-12'')], JObj [(''date'', JStr ''2024-01-11'')],
        JObj [(''date'', JStr ''2024-01-10'')], JObj [(''date'', JStr ''2024-01-09'')],
        JObj [(''date'', JStr ''2024-01-08'')], JObj [(''date'', JStr ''2024-01-05'')],
        JObj [(''date'', JStr ''2024-01-04'')], JObj [(''date'', JStr ''2024-01-03'')]])]) of
      Inr rows \<Rightarrow> map Date rows
    | Inl e \<Rightarrow> [])
   = [JStr ''2024-01-12'', JStr ''2024-01-11'', JStr ''2024-01-10'', JStr ''2024-01-09'',
      JStr ''2024-01-08'']"
proof -
  let ?days = "[JObj [(''date'', JStr ''2024-01-12'')], JObj [(''date'', JStr ''2024-01-11'')],
        JObj [(''date'', JStr ''2024-01-10'')], JObj [(''date'', JStr ''2024-01-09'')],
        JObj [(''date'', JStr ''2024-01-08'')], JObj [(''date'', JStr ''2024-01-05'')],
        JObj [(''date'', JStr ''2024-01-04'')], JObj [(''date'', JStr ''2024-01-03'')]]"
  have day: "normalize_day (JObj [(''date'', JStr s)]) =
      Inr \<lparr> Date = JStr s, Overnight = None, Term1M = None, Term3M = None, Term6M = None,
            Term1Y = None, Avg30 = JNull, Avg90 = JNull, Avg180 = JNull, SofrIndex = JNull \<rparr>"
    for s
    by (simp add: normalize_day_def dict_get_def get_default_def bindE_def term_rates_of_def
        fixing_of_def overnight_rate_def is_sentinel_def sentinels_def py_lower_def lower_char_def)
  have "normalize_strips (JObj [(''resultsStrip'', JArr ?days)]) =
      mapE normalize_day (take 5 ?days)"
    using first_five_days_only[of "[(''resultsStrip'', JArr ?days)]" ?days] by simp
  then show ?thesis
    by (simp add: day bindE_def)
qed

subsection \<open>Sentinel values of the overnight rate\<close>

lemma column_items_source:
  "it \<in> set (fst (column_items lib ts sd row cols)) \<Longrightarrow>
   \<exists>cell mid u. (cell, mid, u) \<in> set cols \<and> metricId it = mid
      \<and> isna lib (cell row) = Inr False \<and> decimal_of_str (cell row) = Some (item_value it)"
proof (induction cols)
  case Nil
  then show ?case by simp
next
  case (Cons c cols)
  obtain cell mid u where c: "c = (cell, mid, u)" by (cases c)
  show ?case
    using Cons unfolding c
    by (fastforce simp: batch_cons_def split: sum.splits bool.splits option.splits if_splits)
qed

lemma no_overnight_item:
  assumes "Overnight row = None"
  shows "\<forall>it \<in> set (fst (row_items lib row)). metricId it \<noteq> ''SOFR_Overnight''"
proof
  fix it assume it: "it \<in> set (fst (row_items lib row))"
  show "metricId it \<noteq> ''SOFR_Overnight''"
  proof (cases "Date row")
    case None
    with it show ?thesis by (simp add: row_items_def)
  next
    case (Some d)
    show ?thesis
    proof (cases "epoch_millis d")
      case (Inl e)
      with it Some show ?thesis by (simp add: row_items_def)
    next
      case (Inr ts)
      with it Some have "it \<in> set (fst (column_items lib ts (strftime lib ''%Y-%m-%d'' d) row metric_mapping))"
        by (simp add: row_items_def)
      from column_items_source[OF this] obtain cell mid u where
        m: "(cell, mid, u) \<in> set metric_mapping" "metricId it = mid" "isna lib (cell row) = Inr False"
        by blast
      show ?thesis
      proof
        assume "metricId it = ''SOFR_Overnight''"
        with m(1,2) have "cell = (\<lambda>r. float_cell (Overnight r))"
          by (auto simp: metric_mapping_def)
        with m(3) assms show False
          by (simp add: float_cell_def isna_def)
      qed
    qed
  qed
qed

text \<open>
  Claim C7. For a day record whose \<^verbatim>\<open>overnight\<close> field is a string that in lower case is
  one of \<^verbatim>\<open>-\<close>, \<^verbatim>\<open>n/a\<close>, \<^verbatim>\<open>none\<close> and the empty string, the overnight rate is absent (not
  zero) in the normalized row, and the store writer puts no item with the metric
  \<^verbatim>\<open>SOFR_Overnight\<close> for that row, whatever the date and the library calls give.
\<close>

theorem sentinel_overnight_absent:
  assumes "py_lower s \<in> set sentinels" and "map_of kvs ''overnight'' = Some (JStr s)"
  shows "overnight_rate (JStr s) = None
     \<and> (\<forall>row. normalize_day (JObj kvs) = Inr row \<longrightarrow>
           Overnight row = None
         \<and> (\<forall>lib dt. \<forall>it \<in> set (fst (row_items lib (with_date row dt))).
               metricId it \<noteq> ''SOFR_Overnight''))"
proof -
  have a: "overnight_rate (JStr s) = None"
    using assms(1) by (simp add: overnight_rate_def is_sentinel_def)
  have b: "Overnight row = None" if "normalize_day (JObj kvs) = Inr row" for row
    using that assms(2) a
    by (auto simp: normalize_day_def bindE_def dict_get_def get_default_def split: sum.splits)
  have c: "\<forall>it \<in> set (fst (row_items lib (with_date row dt))). metricId it \<noteq> ''SOFR_Overnight''"
    if "normalize_day (JObj kvs) = Inr row" for row lib dt
    using no_overnight_item[of "with_date row dt" lib] b[OF that] by (simp add: with_date_def)
  from a b c show ?thesis by blast
qed

text \<open>The sentinels \<^verbatim>\<open>N/A\<close> and \<^verbatim>\<open>NONE\<close> in upper case.\<close>

theorem sentinel_overnight_absent_witness:
  "overnight_rate (JStr ''N/A'') = None
   \<and> (case normalize_day (JObj [(''date'', JStr ''2024-01-02''), (''overnight'', JStr ''NONE'')]) of
        Inr row \<Rightarrow> Overnight row
      | Inl e \<Rightarrow> Some NaN) = None"
proof -
  have l1: "py_lower ''N/A'' \<in> set sentinels"
    by (simp add: py_lower_def lower_char_def sentinels_def)
  have l2: "py_lower ''NONE'' \<in> set sentinels"
    by (simp add: py_lower_def lower_char_def sentinels_def)
  have a: "overnight_rate (JStr ''N/A'') = None"
    using sentinel_overnight_absent[OF l1, of "[(''overnight'', JStr ''N/A'')]"] by simp
  let ?kvs = "[(''date'', JStr ''2024-01-02''), (''overnight'', JStr ''NONE'')]"
  have b: "\<forall>row. normalize_day (JObj ?kvs) = Inr row \<longrightarrow> Overnight row = None"
    using sentinel_overnight_absent[OF l2, of ?kvs] by simp
  have "\<exists>row. normalize_day (JObj ?kvs) = Inr row"
    by (simp add: normalize_day_def dict_get_def get_default_def bindE_def term_rates_of_def
        fixing_of_def)
  with a b show ?thesis by auto
qed

section \<open>Properties of the store writers\<close>








section \<open>Properties of the chart-data fetchers\<close>

subsection \<open>Order of the points\<close>

lemma cnbc_attempt_sorted:
  assumes "\<And>xs. sorted (map row_time (sort_values lib xs))"
  shows "cnbc_attempt lib r = Inr df \<Longrightarrow> sorted (map row_time df)"
  using assms
  by (auto simp: cnbc_attempt_def bindE_def split: response.splits sum.splits option.splits if_splits)

lemma fetch_loop_sorted:
  assumes "\<And>xs. sorted (map row_time (sort_values lib xs))"
  shows "sorted (map row_time (fst (fetch_loop lib net a left)))"
proof (induction left arbitrary: a)
  case 0
  show ?case by simp
next
  case (Suc left)
  show ?case
  proof (cases "cnbc_attempt lib (net a)")
    case (Inr df)
    with cnbc_attempt_sorted[OF assms, of "net a" df] show ?thesis by simp
  next
    case (Inl e)
    with Suc[of "Suc a"] show ?thesis by (simp add: split_beta)
  qed
qed

text \<open>
  Claim C5, as amended. Provided \<^verbatim>\<open>sort_values\<close> returns its rows sorted by time and
  keeps them all, the frame that CNBC.py hands to its store writer is sorted ascending
  by time, and an attempt that finds price bars returns a permutation of the normalized
  rows. Nothing is said about the order of rows of equal time: the script asks for the
  default sort kind. CNBC_US10YTIP_History.py returns the normalized rows in source
  order.
\<close>

theorem chart_points_sorted:
  assumes "\<And>xs. sorted (map row_time (sort_values lib xs))"
      and "\<And>xs. mset (sort_values lib xs) = mset xs"
  shows "sorted (map row_time (fst (fetch_cnbc_data lib net)))
     \<and> (\<forall>data price_bars bars rows.
           price_bars_of data = Inr (Some price_bars) \<and> py_iter price_bars = Inr bars
           \<and> process_bars (process_bar fromtimestamp_utc) bars = Inr rows \<longrightarrow>
           (\<exists>df. cnbc_attempt lib (Body data) = Inr df \<and> mset df = mset rows
                 \<and> sorted (map row_time df)))
     \<and> (\<forall>data price_bars bars rows.
           price_bars_of data = Inr (Some price_bars) \<and> py_iter price_bars = Inr bars
           \<and> process_bars (process_bar (fromtimestamp_local lib)) bars = Inr rows \<longrightarrow>
           history_attempt lib (Body data) = Inr (Some rows))"
proof -
  have a: "sorted (map row_time (fst (fetch_cnbc_data lib net)))"
    unfolding fetch_cnbc_data_def by (rule fetch_loop_sorted[OF assms(1)])
  have b: "\<exists>df. cnbc_attempt lib (Body data) = Inr df \<and> mset df = mset rows
                 \<and> sorted (map row_time df)"
    if "price_bars_of data = Inr (Some price_bars)" "py_iter price_bars = Inr bars"
       "process_bars (process_bar fromtimestamp_utc) bars = Inr rows"
    for data price_bars bars rows
  proof -
    have "cnbc_attempt lib (Body data) = Inr (if rows \<noteq> [] then sort_values lib rows else rows)"
      using that by (simp add: cnbc_attempt_def bindE_def)
    then show ?thesis
      using assms by auto
  qed
  have c: "history_attempt lib (Body data) = Inr (Some rows)"
    if "price_bars_of data = Inr (Some price_bars)" "py_iter price_bars = Inr bars"
       "process_bars (process_bar (fromtimestamp_local lib)) bars = Inr rows"
    for data price_bars bars rows
    using that by (simp add: history_attempt_def bindE_def)
  from a b c show ?thesis by blast
qed

text \<open>
  Two bars, the later one first: CNBC.py with the sample library returns them in
  ascending order.
\<close>

theorem chart_points_sorted_witness:
  "sorted (map row_time (fst (fetch_cnbc_data sample_lib (\<lambda>i. Body (chart_payload
      [JObj [(''tradeTimeinMills'', JInt 1700000060000), (''close'', JStr ''2.05'')],
       JObj [(''tradeTimeinMills'', JInt 1700000000000), (''close'', JStr ''2.04'')]])))))
   \<and> map row_time (fst (fetch_cnbc_data sample_lib (\<lambda>i. Body (chart_payload
      [JObj [(''tradeTimeinMills'', JInt 1700000060000), (''close'', JStr ''2.05'')],
       JObj [(''tradeTimeinMills'', JInt 1700000000000), (''close'', JStr ''2.04'')]]))))
     = [1700000000000000, 1700000060000000]"
proof -
  have s: "sorted (map row_time (sort_values sample_lib xs))" for xs
    by (simp add: sample_lib_def row_time_def[abs_def] sorted_sort_key)
  have m: "mset (sort_values sample_lib xs) = mset xs" for xs
    by (simp add: sample_lib_def)
  have v: "map row_time (fst (fetch_cnbc_data sample_lib (\<lambda>i. Body (chart_payload
      [JObj [(''tradeTimeinMills'', JInt 1700000060000), (''close'', JStr ''2.05'')],
       JObj [(''tradeTimeinMills'', JInt 1700000000000), (''close'', JStr ''2.04'')]]))))
     = [1700000000000000, 1700000060000000]"
    by code_simp
  show ?thesis
    using chart_points_sorted[of sample_lib, OF s m] v by blast
qed

text \<open>
  The same two bars through CNBC_US10YTIP_History.py: the frame handed to the store
  writer is not sorted.
\<close>

theorem history_points_unsorted:
  "\<not> sorted (map row_time (case fst (history_fetch_cnbc_data sample_lib (\<lambda>i. Body (chart_payload
      [JObj [(''tradeTimeinMills'', JInt 1700000060000), (''close'', JStr ''2.05'')],
       JObj [(''tradeTimeinMills'', JInt 1700000000000), (''close'', JStr ''2.04'')]]))) of
     Some rows \<Rightarrow> rows | None \<Rightarrow> []))"
  by code_simp

subsection \<open>Retries\<close>

lemma fetch_cnbc_data_unrolled:
  "fetch_cnbc_data lib net =
     (case cnbc_attempt lib (net 0) of
        Inr df \<Rightarrow> (df, 1, [])
      | Inl e0 \<Rightarrow> (case cnbc_attempt lib (net 1) of
          Inr df \<Rightarrow> (df, 2, [5])
        | Inl e1 \<Rightarrow> (case cnbc_attempt lib (net 2) of
            Inr df \<Rightarrow> (df, 3, [5, 5])
          | Inl e2 \<Rightarrow> ([], 3, [5, 5]))))"
  by (simp add: fetch_cnbc_data_def max_retries_def retry_delay_def numeral_3_eq_3 numeral_2_eq_2
      split: sum.splits)

text \<open>
  Claim C6, as amended. CNBC.py makes at most three requests and sleeps 5 before each
  retry; an attempt fails on a transport error, a rejected status or a body that is not
  JSON (and on any other exception while the body is processed); after three failed
  attempts the result is the empty frame, and no exception leaves the fetcher. A JSON
  object that lacks the path \<^verbatim>\<open>data.chartData.priceBars\<close> gives the empty frame at once,
  without a retry. CNBC_US10YTIP_History.py makes one request and returns no frame on
  a failed request or a mismatch.
\<close>

theorem fetch_retry_policy:
  "fetch_cnbc_data lib net =
     (case cnbc_attempt lib (net 0) of
        Inr df \<Rightarrow> (df, 1, [])
      | Inl e0 \<Rightarrow> (case cnbc_attempt lib (net 1) of
          Inr df \<Rightarrow> (df, 2, [5])
        | Inl e1 \<Rightarrow> (case cnbc_attempt lib (net 2) of
            Inr df \<Rightarrow> (df, 3, [5, 5])
          | Inl e2 \<Rightarrow> ([], 3, [5, 5]))))
   \<and> (request_failed r \<longrightarrow> (\<exists>e. cnbc_attempt lib r = Inl e))
   \<and> (request_failed (net 0) \<and> request_failed (net 1) \<and> request_failed (net 2) \<longrightarrow>
        fetch_cnbc_data lib net = ([], 3, [5, 5]))
   \<and> (price_bars_of (JObj kvs) = Inr None \<longrightarrow> cnbc_attempt lib (Body (JObj kvs)) = Inr [])
   \<and> (net 0 = Body (JObj kvs) \<and> price_bars_of (JObj kvs) = Inr None \<longrightarrow>
        fetch_cnbc_data lib net = ([], 1, []))
   \<and> snd (history_fetch_cnbc_data lib net) = 1
   \<and> (request_failed (net 0) \<or> (net 0 = Body (JObj kvs) \<and> price_bars_of (JObj kvs) = Inr None) \<longrightarrow>
        history_fetch_cnbc_data lib net = (None, 1))"
proof -
  have f: "\<exists>e. cnbc_attempt lib r = Inl e" if "request_failed r" for r
    using that by (auto simp: request_failed_def cnbc_attempt_def)
  have m: "cnbc_attempt lib (Body (JObj kvs)) = Inr []" if "price_bars_of (JObj kvs) = Inr None"
    using that by (simp add: cnbc_attempt_def bindE_def)
  have all: "fetch_cnbc_data lib net = ([], 3, [5, 5])"
    if "request_failed (net 0) \<and> request_failed (net 1) \<and> request_failed (net 2)"
  proof -
    from that f obtain e0 e1 e2 where "cnbc_attempt lib (net 0) = Inl e0"
      "cnbc_attempt lib (net 1) = Inl e1" "cnbc_attempt lib (net 2) = Inl e2"
      by blast
    then show ?thesis by (simp add: fetch_cnbc_data_unrolled)
  qed
  have one: "fetch_cnbc_data lib net = ([], 1, [])"
    if "net 0 = Body (JObj kvs) \<and> price_bars_of (JObj kvs) = Inr None"
    using that m by (simp add: fetch_cnbc_data_unrolled)
  have h1: "snd (history_fetch_cnbc_data lib net) = 1"
    by (simp add: history_fetch_cnbc_data_def)
  have h2: "history_fetch_cnbc_data lib net = (None, 1)"
    if "request_failed (net 0) \<or> (net 0 = Body (JObj kvs) \<and> price_bars_of (JObj kvs) = Inr None)"
    using that
    by (auto simp: history_fetch_cnbc_data_def history_attempt_def request_failed_def bindE_def)
  show ?thesis
    using fetch_cnbc_data_unrolled[of lib net] f m all one h1 h2 by blast
qed

text \<open>Three transport errors: three requests, two sleeps of 5, the empty frame.\<close>

theorem fetch_retry_policy_witness:
  "fetch_cnbc_data sample_lib (\<lambda>i. TransportError) = ([], 3, [5, 5])
   \<and> fetch_cnbc_data sample_lib (\<lambda>i. Body (JObj [(''errors'', JStr ''no data'')])) = ([], 1, [])"
proof -
  have p: "price_bars_of (JObj [(''errors'', JStr ''no data'')]) = Inr None"
    by (simp add: price_bars_of_def dict_get_def get_default_def bindE_def)
  have a: "fetch_cnbc_data sample_lib (\<lambda>i. TransportError) = ([], 3, [5, 5])"
    using fetch_retry_policy[of sample_lib "\<lambda>i. TransportError" TransportError,
        THEN conjunct2, THEN conjunct2, THEN conjunct1]
    by (simp add: request_failed_def)
  have b: "fetch_cnbc_data sample_lib (\<lambda>i. Body (JObj [(''errors'', JStr ''no data'')]))
      = ([], 1, [])"
    using fetch_retry_policy[of sample_lib "\<lambda>i. Body (JObj [(''errors'', JStr ''no data'')])"
        TransportError "[(''errors'', JStr ''no data'')]",
        THEN conjunct2, THEN conjunct2, THEN conjunct2, THEN conjunct2, THEN conjunct1] p
    by simp
  from a b show ?thesis by simp
qed

text \<open>
  CNBC_US10YTIP_History.py does not retry: with a transport error on the first request
  it returns no frame after one request, though a second request would be answered.
\<close>

theorem history_fetch_not_retried:
  "history_fetch_cnbc_data sample_lib
     (\<lambda>i. if i = 0 then TransportError
          else Body (chart_payload
            [JObj [(''tradeTimeinMills'', JInt 1700000000000), (''close'', JStr ''2.04'')]]))
   = (None, 1)"
  by (simp add: history_fetch_cnbc_data_def history_attempt_def)

section \<open>Properties of the main programs\<close>

lemma fetch_sofr_failed:
  "page_failed pg \<Longrightarrow> fetch_sofr_strip_rates_with_selenium lib pg = []"
  by (auto simp: page_failed_def fetch_sofr_strip_rates_with_selenium_def)

lemma fetch_sofr_parse_failed:
  "bindE (normalize_strips data) (to_frame lib) = Inl e \<Longrightarrow>
   fetch_sofr_strip_rates_with_selenium lib (Loaded data) = []"
  by (simp add: fetch_sofr_strip_rates_with_selenium_def)

text \<open>
  Claim C4, as amended. CNBC.py and CNBC_US10YTIP_History.py end with status 1 when
  the connection to the store cannot be established, and then the fetcher is not
  called. CMESOFR.py goes on without a table: it calls the fetcher, skips the store
  writer and ends with status 0. In all three a failed fetch (for CMESOFR.py also a
  payload that cannot be normalized) ends with status 0 and leaves the table as it was.
  Apart from the failed connection, a status other than 0 arises only when an exception
  leaves the store writer.
\<close>

theorem exit_status_policy:
  "cnbc_main lib None net m u = \<lparr> exit_status = 1, fetch_called = False, table_after = None \<rparr>
   \<and> history_main lib None net = \<lparr> exit_status = 1, fetch_called = False, table_after = None \<rparr>
   \<and> cmesofr_main lib None pg = \<lparr> exit_status = 0, fetch_called = True, table_after = None \<rparr>
   \<and> (page_failed pg \<or> (\<exists>data e. pg = Loaded data \<and> bindE (normalize_strips data) (to_frame lib) = Inl e) \<longrightarrow>
        cmesofr_main lib conn pg = \<lparr> exit_status = 0, fetch_called = True, table_after = conn \<rparr>)
   \<and> (request_failed (net 0) \<and> request_failed (net 1) \<and> request_failed (net 2) \<longrightarrow>
        cnbc_main lib (Some t) net m u
          = \<lparr> exit_status = 0, fetch_called = True, table_after = Some t \<rparr>)
   \<and> (request_failed (net 0) \<longrightarrow>
        history_main lib (Some t) net
          = \<lparr> exit_status = 0, fetch_called = True, table_after = Some t \<rparr>)
   \<and> (exit_status (cmesofr_main lib conn pg) \<noteq> 0 \<longrightarrow>
        (\<exists>tbl e. store_sofr_data_in_dynamodb lib conn (fetch_sofr_strip_rates_with_selenium lib pg)
                    = (tbl, Inl e)))
   \<and> (exit_status (cnbc_main lib conn net m u) \<noteq> 0 \<longrightarrow>
        conn = None
        \<or> (\<exists>tbl e. store_data_in_dynamodb lib conn (fst (fetch_cnbc_data lib net)) m u = (tbl, Inl e)))
   \<and> (exit_status (history_main lib conn net) \<noteq> 0 \<longrightarrow>
        conn = None
        \<or> (\<exists>t' e. store_yield_data_in_dynamodb lib (the conn) (fst (history_fetch_cnbc_data lib net))
                     ''CNBC_US10YTIP_Close'' ''%'' = (t', Inl e)))"
proof -
  have a: "cnbc_main lib None net m u = \<lparr> exit_status = 1, fetch_called = False, table_after = None \<rparr>"
    by (simp add: cnbc_main_def)
  have b: "history_main lib None net = \<lparr> exit_status = 1, fetch_called = False, table_after = None \<rparr>"
    by (simp add: history_main_def)
  have c: "cmesofr_main lib None pg = \<lparr> exit_status = 0, fetch_called = True, table_after = None \<rparr>"
    by (simp add: cmesofr_main_def Let_def)
  have d: "cmesofr_main lib conn pg = \<lparr> exit_status = 0, fetch_called = True, table_after = conn \<rparr>"
    if "page_failed pg \<or> (\<exists>data e. pg = Loaded data \<and> bindE (normalize_strips data) (to_frame lib) = Inl e)"
  proof -
    from that have "fetch_sofr_strip_rates_with_selenium lib pg = []"
      using fetch_sofr_failed fetch_sofr_parse_failed by blast
    then show ?thesis by (simp add: cmesofr_main_def)
  qed
  have f: "\<exists>e. cnbc_attempt lib r = Inl e" if "request_failed r" for r
    using that by (auto simp: request_failed_def cnbc_attempt_def)
  have e: "cnbc_main lib (Some t) net m u
          = \<lparr> exit_status = 0, fetch_called = True, table_after = Some t \<rparr>"
    if "request_failed (net 0) \<and> request_failed (net 1) \<and> request_failed (net 2)"
  proof -
    from that f obtain e0 e1 e2 where "cnbc_attempt lib (net 0) = Inl e0"
      "cnbc_attempt lib (net 1) = Inl e1" "cnbc_attempt lib (net 2) = Inl e2"
      by blast
    then have "fetch_cnbc_data lib net = ([], 3, [5, 5])"
      by (simp add: fetch_cnbc_data_unrolled)
    then show ?thesis by (simp add: cnbc_main_def)
  qed
  have g: "history_main lib (Some t) net
          = \<lparr> exit_status = 0, fetch_called = True, table_after = Some t \<rparr>"
    if "request_failed (net 0)"
  proof -
    from that have "history_fetch_cnbc_data lib net = (None, 1)"
      by (auto simp: history_fetch_cnbc_data_def history_attempt_def request_failed_def)
    then show ?thesis by (simp add: history_main_def)
  qed
  have h: "\<exists>tbl e. store_sofr_data_in_dynamodb lib conn (fetch_sofr_strip_rates_with_selenium lib pg)
                    = (tbl, Inl e)"
    if "exit_status (cmesofr_main lib conn pg) \<noteq> 0"
    using that
    by (auto simp: cmesofr_main_def Let_def split: if_splits option.splits prod.splits sum.splits)
  have i: "conn = None
        \<or> (\<exists>tbl e. store_data_in_dynamodb lib conn (fst (fetch_cnbc_data lib net)) m u = (tbl, Inl e))"
    if "exit_status (cnbc_main lib conn net m u) \<noteq> 0"
    using that
    by (auto simp: cnbc_main_def Let_def split: if_splits option.splits prod.splits sum.splits)
  have j: "conn = None
        \<or> (\<exists>t' e. store_yield_data_in_dynamodb lib (the conn) (fst (history_fetch_cnbc_data lib net))
                     ''CNBC_US10YTIP_Close'' ''%'' = (t', Inl e))"
    if "exit_status (history_main lib conn net) \<noteq> 0"
    using that
    by (auto simp: history_main_def Let_def split: if_splits option.splits prod.splits sum.splits)
  from a b c d e g h i j show ?thesis by blast
qed

text \<open>
  CNBC.py without a connection, CNBC.py with three transport errors, and CMESOFR.py
  with a page that is not JSON.
\<close>

theorem exit_status_policy_witness:
  "cnbc_main sample_lib None (\<lambda>i. TransportError) ''CNBC_US10YTIP_1D_Close'' ''%''
     = \<lparr> exit_status = 1, fetch_called = False, table_after = None \<rparr>
   \<and> cnbc_main sample_lib (Some Map.empty) (\<lambda>i. TransportError) ''CNBC_US10YTIP_1D_Close'' ''%''
     = \<lparr> exit_status = 0, fetch_called = True, table_after = Some Map.empty \<rparr>
   \<and> cmesofr_main sample_lib (Some Map.empty) MalformedPayload
     = \<lparr> exit_status = 0, fetch_called = True, table_after = Some Map.empty \<rparr>"
proof -
  have a: "cnbc_main sample_lib None (\<lambda>i. TransportError) ''CNBC_US10YTIP_1D_Close'' ''%''
     = \<lparr> exit_status = 1, fetch_called = False, table_after = None \<rparr>"
    using exit_status_policy[of sample_lib "\<lambda>i. TransportError" "''CNBC_US10YTIP_1D_Close''" "''%''",
        THEN conjunct1] .
  have b: "cnbc_main sample_lib (Some Map.empty) (\<lambda>i. TransportError) ''CNBC_US10YTIP_1D_Close'' ''%''
     = \<lparr> exit_status = 0, fetch_called = True, table_after = Some Map.empty \<rparr>"
    using exit_status_policy[of sample_lib "\<lambda>i. TransportError" "''CNBC_US10YTIP_1D_Close''" "''%''"
        MalformedPayload None Map.empty,
        THEN conjunct2, THEN conjunct2, THEN conjunct2, THEN conjunct2, THEN conjunct1]
    by (simp add: request_failed_def)
  have c: "cmesofr_main sample_lib (Some Map.empty) MalformedPayload
     = \<lparr> exit_status = 0, fetch_called = True, table_after = Some Map.empty \<rparr>"
    using exit_status_policy[of sample_lib "\<lambda>i. TransportError" "''CNBC_US10YTIP_1D_Close''" "''%''"
        MalformedPayload "Some Map.empty" Map.empty,
        THEN conjunct2, THEN conjunct2, THEN conjunct2, THEN conjunct1]
    by (simp add: page_failed_def)
  from a b c show ?thesis by simp
qed

text \<open>
  CMESOFR.py when the connection cannot be established: the fetcher is called all the
  same, and the script ends with status 0.
\<close>

theorem cmesofr_fetches_without_store:
  "cmesofr_main sample_lib None
     (Loaded (JObj [(''resultsStrip'', JArr
        [JObj [(''date'', JStr ''2024-01-02''), (''overnight'', JStr ''5.31'')]])]))
   = \<lparr> exit_status = 0, fetch_called = True, table_after = None \<rparr>"
  by (simp add: cmesofr_main_def Let_def)


section \<open>Properties of the chart-data normalizer\<close>

subsection \<open>The value of a point\<close>

lemma float_of_default_close: "float_of_str strip_percent (JStr ''0'') = Some (Fin 0)"
  by code_simp

lemma decimal_of_float_not_nan: "x \<noteq> NaN \<Longrightarrow> decimal_of_float x \<noteq> DNaN"
  by (cases x) (auto simp: decimal_of_float_def split: option.splits)

lemma process_bar_emits:
  assumes "process_bar fromts bar = Inr (Some p)"
  shows "\<exists>close. get_default bar ''close'' (JStr ''0'') = Inr close
           \<and> float_of_str strip_percent close = Some (Value p)"
  using assms
  by (auto simp: process_bar_def skip_on_value_or_type_error_def bindE_def
      split: sum.splits if_splits option.splits)

text \<open>
  Claim C1, as amended. A chart bar gives a point only when the text of its \<^verbatim>\<open>close\<close>
  field, taken as \<^verbatim>\<open>"0"\<close> when the field is absent and with percent signs removed, is
  accepted by \<^verbatim>\<open>float()\<close>, and the point carries that float. A bar whose \<^verbatim>\<open>close\<close> is
  present and not numeric gives no point; a bar without a \<^verbatim>\<open>close\<close> field that gives a
  point gives it the value 0. The store writer of CNBC.py puts no item whose value is
  a NaN.
\<close>

theorem point_needs_numeric_close:
  "(process_bar fromts bar = Inr (Some p) \<longrightarrow>
      (\<exists>close. get_default bar ''close'' (JStr ''0'') = Inr close
           \<and> float_of_str strip_percent close = Some (Value p)))
   \<and> (map_of kvs ''close'' = Some c \<and> float_of_str strip_percent c = None \<longrightarrow>
        (\<forall>q. process_bar fromts (JObj kvs) \<noteq> Inr (Some q)))
   \<and> (map_of kvs ''close'' = None \<and> process_bar fromts (JObj kvs) = Inr (Some p) \<longrightarrow>
        Value p = Fin 0)
   \<and> (\<forall>it \<in> set (fst (store_row lib m u row)). item_value it \<noteq> DNaN)"
proof -
  have a: "\<exists>close. get_default bar ''close'' (JStr ''0'') = Inr close
           \<and> float_of_str strip_percent close = Some (Value p)"
    if "process_bar fromts bar = Inr (Some p)"
    using that by (rule process_bar_emits)
  have b: "process_bar fromts (JObj kvs) \<noteq> Inr (Some q)"
    if "map_of kvs ''close'' = Some c \<and> float_of_str strip_percent c = None" for q
  proof
    assume "process_bar fromts (JObj kvs) = Inr (Some q)"
    from process_bar_emits[OF this] that show False
      by (simp add: get_default_def)
  qed
  have c: "Value p = Fin 0"
    if "map_of kvs ''close'' = None \<and> process_bar fromts (JObj kvs) = Inr (Some p)"
  proof -
    from that process_bar_emits[of fromts "JObj kvs" p]
    have "float_of_str strip_percent (JStr ''0'') = Some (Value p)"
      by (simp add: get_default_def)
    then show ?thesis by (simp add: float_of_default_close)
  qed
  have d: "\<forall>it \<in> set (fst (store_row lib m u row)). item_value it \<noteq> DNaN"
    by (auto simp: store_row_def Let_def decimal_of_float_not_nan
        split: sum.splits if_splits bool.splits)
  from a b c d show ?thesis by blast
qed

text \<open>A bar whose close is the text \<^verbatim>\<open>UNCH\<close> is skipped.\<close>

theorem point_needs_numeric_close_witness:
  "process_bar fromtimestamp_utc
     (JObj [(''tradeTimeinMills'', JInt 1700000000000), (''close'', JStr ''UNCH'')]) = Inr None
   \<and> (\<forall>q. process_bar fromtimestamp_utc
     (JObj [(''tradeTimeinMills'', JInt 1700000000000), (''close'', JStr ''UNCH'')]) \<noteq> Inr (Some q))"
proof -
  have n: "float_of_str strip_percent (JStr ''UNCH'') = None"
    by code_simp
  have a: "process_bar fromtimestamp_utc
     (JObj [(''tradeTimeinMills'', JInt 1700000000000), (''close'', JStr ''UNCH'')]) = Inr None"
    by code_simp
  have b: "\<forall>q. process_bar fromtimestamp_utc
     (JObj [(''tradeTimeinMills'', JInt 1700000000000), (''close'', JStr ''UNCH'')]) \<noteq> Inr (Some q)"
    using point_needs_numeric_close[of fromtimestamp_utc _ _
        "[(''tradeTimeinMills'', JInt 1700000000000), (''close'', JStr ''UNCH'')]" "JStr ''UNCH''",
        THEN conjunct2, THEN conjunct1] n
    by simp
  from a b show ?thesis by simp
qed

text \<open>A bar without a \<^verbatim>\<open>close\<close> field is not suppressed: it gives a point of value 0.\<close>

theorem absent_close_emits_zero:
  "process_bar fromtimestamp_utc (JObj [(''tradeTimeinMills'', JInt 1700000000000)])
   = Inr (Some \<lparr> DateTime = \<lparr> micros = 1700000000000000, aware = True \<rparr>, Value = Fin 0 \<rparr>)"
  by code_simp

subsection \<open>The timestamp of a point\<close>

lemma bar_1001_seconds: "int_truediv 1001 1000 = Inr (Fin (2254051613498933 / 2251799813685248))"
  by code_simp

lemma bar_1001_micros:
  "fromtimestamp_micros (Fin (2254051613498933 / 2251799813685248)) = Inr 1001000"
  by code_simp

lemma bar_1001_millis: "epoch_millis \<lparr> micros = 1001000, aware = a \<rparr> = Inr 1000"
proof -
  have "int_of_float (fmul (rn (of_int 1001000 / 1000000)) (Fin 1000)) = Inr 1000"
    by code_simp
  then show ?thesis by (simp add: epoch_millis_def posix_timestamp_def)
qed

lemma bar_1001_close: "float_of_str strip_percent (JStr ''2'') = Some (Fin 2)"
  by code_simp

lemma bar_1001_value: "decimal_of_float (Fin 2) = DFin 2"
  by code_simp

lemma process_bar_1001:
  assumes "fromts (Fin (2254051613498933 / 2251799813685248)) = Inr dt"
  shows "process_bar fromts (JObj [(''tradeTimeinMills'', JInt 1001), (''close'', JStr ''2'')])
           = Inr (Some \<lparr> DateTime = dt, Value = Fin 2 \<rparr>)"
  using assms bar_1001_seconds bar_1001_close
  by (simp add: process_bar_def skip_on_value_or_type_error_def bindE_def dict_get_def
      get_default_def py_int_def)

text \<open>
  Claim C10 at the bar with \<^verbatim>\<open>tradeTimeinMills\<close> = 1001. Both normalizers make the datetime
  of 1.001 seconds, and both store writers compute \<^verbatim>\<open>int(1.001 * 1000)\<close> in floating point,
  which is 1000. CNBC_US10YTIP_History.py, run where the local zone is UTC at that
  second, leaves the table with the point under the timestamp 1000, and nothing new
  under 1001. In CNBC.py, whatever the library answers, an item written for the point
  carries the timestamp 1000.
\<close>

theorem timestamp_1001_stored_as_1000:
  assumes "utcoffset lib 1 = 0"
  shows "table_after (history_main lib (Some t) (\<lambda>i. Body (chart_payload
             [JObj [(''tradeTimeinMills'', JInt 1001), (''close'', JStr ''2'')]])))
         = Some (t((''CNBC_US10YTIP_Close'', 1000) \<mapsto>
             \<lparr> metricId = ''CNBC_US10YTIP_Close'', timestamp = 1000, item_value = DFin 2,
               sourceDate = strftime lib ''%Y-%m-%d %H:%M:%S'' \<lparr> micros = 1001000, aware = False \<rparr>,
               item_unit = Some ''%'' \<rparr>))
       \<and> process_bar fromtimestamp_utc
             (JObj [(''tradeTimeinMills'', JInt 1001), (''close'', JStr ''2'')])
           = Inr (Some \<lparr> DateTime = \<lparr> micros = 1001000, aware = True \<rparr>, Value = Fin 2 \<rparr>)
       \<and> (\<forall>lib' m u. \<forall>it \<in> set (fst (store_row lib' m u
               \<lparr> DateTime = \<lparr> micros = 1001000, aware = True \<rparr>, Value = Fin 2 \<rparr>)).
             timestamp it = 1000)"
proof -
  let ?bar = "JObj [(''tradeTimeinMills'', JInt 1001), (''close'', JStr ''2'')]"
  let ?dt = "\<lparr> micros = 1001000, aware = False \<rparr>"
  let ?row = "\<lparr> DateTime = ?dt, Value = Fin 2 \<rparr>"
  have loc: "fromtimestamp_local lib (Fin (2254051613498933 / 2251799813685248)) = Inr ?dt"
    using assms by (simp add: fromtimestamp_local_def bar_1001_micros bindE_def)
  have pb: "process_bar (fromtimestamp_local lib) ?bar = Inr (Some ?row)"
    by (rule process_bar_1001[of "fromtimestamp_local lib", OF loc])
  have att: "history_attempt lib (Body (chart_payload [?bar])) = Inr (Some [?row])"
    by (simp add: history_attempt_def chart_payload_def price_bars_of_def dict_get_def
        get_default_def bindE_def py_iter_def pb)
  have sr: "history_store_row lib ''CNBC_US10YTIP_Close'' ''%'' ?row
      = ([\<lparr> metricId = ''CNBC_US10YTIP_Close'', timestamp = 1000, item_value = DFin 2,
            sourceDate = strftime lib ''%Y-%m-%d %H:%M:%S'' ?dt, item_unit = Some ''%'' \<rparr>], None)"
    by (simp add: history_store_row_def bar_1001_millis bar_1001_value)
  have a: "table_after (history_main lib (Some t) (\<lambda>i. Body (chart_payload [?bar])))
         = Some (t((''CNBC_US10YTIP_Close'', 1000) \<mapsto>
             \<lparr> metricId = ''CNBC_US10YTIP_Close'', timestamp = 1000, item_value = DFin 2,
               sourceDate = strftime lib ''%Y-%m-%d %H:%M:%S'' ?dt, item_unit = Some ''%'' \<rparr>))"
    by (simp add: history_main_def history_fetch_cnbc_data_def att
        store_yield_data_in_dynamodb_def sr run_batch_def put_items_def put_item_def)
  have utc: "fromtimestamp_utc (Fin (2254051613498933 / 2251799813685248))
      = Inr \<lparr> micros = 1001000, aware = True \<rparr>"
    by (simp add: fromtimestamp_utc_def bar_1001_micros bindE_def)
  have b: "process_bar fromtimestamp_utc ?bar
      = Inr (Some \<lparr> DateTime = \<lparr> micros = 1001000, aware = True \<rparr>, Value = Fin 2 \<rparr>)"
    by (rule process_bar_1001[of fromtimestamp_utc, OF utc])
  have c: "\<forall>it \<in> set (fst (store_row lib' m u
               \<lparr> DateTime = \<lparr> micros = 1001000, aware = True \<rparr>, Value = Fin 2 \<rparr>)).
             timestamp it = 1000" for lib' m u
    by (auto simp: store_row_def Let_def bar_1001_millis split: sum.splits bool.splits if_splits)
  from a b c show ?thesis by blast
qed

text \<open>
  With the sample library, whose local zone is UTC: after the run of
  CNBC_US10YTIP_History.py on an empty table, the key with timestamp 1000 holds the
  point and the key with timestamp 1001 holds nothing.
\<close>

theorem timestamp_1001_stored_as_1000_witness:
  "(case table_after (history_main sample_lib (Some Map.empty) (\<lambda>i. Body (chart_payload
             [JObj [(''tradeTimeinMills'', JInt 1001), (''close'', JStr ''2'')]]))) of
      Some t' \<Rightarrow> map_option item_value (t' (''CNBC_US10YTIP_Close'', 1000)) = Some (DFin 2)
                \<and> t' (''CNBC_US10YTIP_Close'', 1001) = None
    | None \<Rightarrow> False)"
proof -
  have z: "utcoffset sample_lib 1 = 0"
    by (simp add: sample_lib_def)
  show ?thesis
    using timestamp_1001_stored_as_1000[OF z, of Map.empty, THEN conjunct1] by simp
qed

section \<open>Binary floats and the decimals they print as\<close>

text \<open>
  The facts about \<open>rn\<close> and \<open>shortest_from\<close> behind the exactness of short decimals:
  rounding to a float has a relative error of at most \<open>2^-53\<close> in the normal range, two
  decimals of at most 15 digits that read as the same float are equal, and so the
  shortest numeral that reads back as the float of such a decimal is the decimal itself.
\<close>

lemma pow2_powi: "pow2 e = 2 powi e"
proof (cases "0 \<le> e")
  case True
  then show ?thesis by (simp add: pow2_def power_int_nonneg_exp)
next
  case False
  then have "2 powi e = (1 / 2 powi (- e) :: rat)"
    using power_int_minus_divide[of "2::rat" "- e"] by simp
  with False show ?thesis by (simp add: pow2_def power_int_nonneg_exp)
qed

lemma pow10_powi: "pow10 e = 10 powi e"
proof (cases "0 \<le> e")
  case True
  then show ?thesis by (simp add: pow10_def power_int_nonneg_exp)
next
  case False
  then have "10 powi e = (1 / 10 powi (- e) :: rat)"
    using power_int_minus_divide[of "10::rat" "- e"] by simp
  with False show ?thesis by (simp add: pow10_def power_int_nonneg_exp)
qed

lemma ndigits_bounds:
  "0 < n \<Longrightarrow> 10 ^ nat (ndigits n - 1) \<le> n \<and> n < 10 ^ nat (ndigits n) \<and> 0 < ndigits n"
proof (induction n rule: ndigits.induct)
  case (1 n)
  show ?case
  proof (cases "n div 10 = 0")
    case True
    with 1 have "n < 10" by presburger
    moreover from True have "ndigits (n div 10) = 0" by (simp add: ndigits.simps)
    ultimately show ?thesis using 1(2) by (simp add: ndigits.simps[of n])
  next
    case False
    with 1(2) have pos: "0 < n div 10" by presburger
    from 1(1) pos 1(2) have ih: "10 ^ nat (ndigits (n div 10) - 1) \<le> n div 10"
      "n div 10 < 10 ^ nat (ndigits (n div 10))" "0 < ndigits (n div 10)" by auto
    have nd: "ndigits n = ndigits (n div 10) + 1"
      using 1(2) by (simp add: ndigits.simps[of n])
    have e1: "nat (ndigits n - 1) = Suc (nat (ndigits (n div 10) - 1))"
      using ih(3) nd by (simp add: Suc_nat_eq_nat_zadd1)
    have e2: "nat (ndigits n) = Suc (nat (ndigits (n div 10)))"
      using ih(3) nd by (simp add: Suc_nat_eq_nat_zadd1)
    have "10 * 10 ^ nat (ndigits (n div 10) - 1) \<le> n"
      using ih(1) by presburger
    moreover have "n < 10 * 10 ^ nat (ndigits (n div 10))"
      using ih(2) by presburger
    ultimately show ?thesis using nd ih(3) unfolding e1 e2 by simp
  qed
qed


lemma frac_bounds:
  fixes b :: rat
  assumes b: "1 < b" and d: "0 < d"
    and n1: "b powi (x - 1) \<le> of_int n" and n2: "of_int n < b powi x"
    and d1: "b powi (y - 1) \<le> of_int d" and d2: "of_int d < b powi y"
  shows "b powi (x - y - 1) < of_int n / of_int d" and "of_int n / of_int d < b powi (x - y + 1)"
proof -
  have b0: "b \<noteq> 0" "0 < b" using b by auto
  have dpos: "(0::rat) < of_int d" using d by simp
  have "b powi (x - y - 1) * of_int d < b powi (x - y - 1) * b powi y"
    using d2 b0 by (intro mult_strict_left_mono) auto
  also have "\<dots> = b powi (x - 1)"
    using b0 by (simp add: power_int_add[symmetric])
  also have "\<dots> \<le> of_int n" by (rule n1)
  finally show "b powi (x - y - 1) < of_int n / of_int d"
    using dpos by (simp add: pos_less_divide_eq)
  have "of_int n < b powi x" by (rule n2)
  also have "b powi x = b powi (x - y + 1) * b powi (y - 1)"
    using b0 by (simp add: power_int_add[symmetric])
  also have "\<dots> \<le> b powi (x - y + 1) * of_int d"
    using d1 b0 by (intro mult_left_mono) auto
  finally show "of_int n / of_int d < b powi (x - y + 1)"
    using dpos by (simp add: pos_divide_less_eq)
qed

lemma quotient_of_pos:
  assumes "0 < a"
  obtains n d where "quotient_of a = (n, d)" "0 < n" "0 < d" "a = of_int n / of_int d"
proof -
  obtain n d where q: "quotient_of a = (n, d)" by (cases "quotient_of a")
  have d: "0 < d" using q by (rule quotient_of_denom_pos)
  have a: "a = of_int n / of_int d" using q by (rule quotient_of_div)
  have "0 < n"
  proof (rule ccontr)
    assume "\<not> 0 < n"
    then have "of_int n / of_int d \<le> (0::rat)"
      using d by (simp add: divide_le_0_iff)
    with a assms show False by simp
  qed
  then show ?thesis using that[OF q _ d a] by blast
qed

lemma ilog10_bounds:
  assumes "0 < a"
  shows "10 powi (ilog10 a) \<le> a" and "a < 10 powi (ilog10 a + 1)"
proof -
  obtain n d where q: "quotient_of a = (n, d)" "0 < n" "0 < d" "a = of_int n / of_int d"
    using assms by (rule quotient_of_pos)
  let ?k = "ndigits n - ndigits d"
  have cv: "(of_int ((10::int) ^ nat m) :: rat) = 10 powi m" if "0 \<le> m" for m
    using that by (simp add: power_int_nonneg_exp)
  from ndigits_bounds[OF q(2)] have nb: "10 ^ nat (ndigits n - 1) \<le> n" "n < 10 ^ nat (ndigits n)"
    "0 < ndigits n" by auto
  from ndigits_bounds[OF q(3)] have db: "10 ^ nat (ndigits d - 1) \<le> d" "d < 10 ^ nat (ndigits d)"
    "0 < ndigits d" by auto
  have n1: "(10::rat) powi (ndigits n - 1) \<le> of_int n"
    using nb(1) nb(3) cv[of "ndigits n - 1"] by (metis of_int_le_iff diff_ge_0_iff_ge zle_diff1_eq)
  have n2: "of_int n < (10::rat) powi (ndigits n)"
    using nb(2) nb(3) cv[of "ndigits n"] by (metis of_int_less_iff less_imp_le)
  have d1: "(10::rat) powi (ndigits d - 1) \<le> of_int d"
    using db(1) db(3) cv[of "ndigits d - 1"] by (metis of_int_le_iff diff_ge_0_iff_ge zle_diff1_eq)
  have d2: "of_int d < (10::rat) powi (ndigits d)"
    using db(2) db(3) cv[of "ndigits d"] by (metis of_int_less_iff less_imp_le)
  have lo: "10 powi (?k - 1) < a" and hi: "a < 10 powi (?k + 1)"
    using frac_bounds[of 10 d "ndigits n" n "ndigits d", OF _ q(3) n1 n2 d1 d2] q(4) by simp_all
  have il: "ilog10 a = (if 10 powi ?k \<le> a then ?k else ?k - 1)"
    using q(1) by (simp add: ilog10_def pow10_powi)
  show "10 powi (ilog10 a) \<le> a"
    using lo by (simp add: il)
  show "a < 10 powi (ilog10 a + 1)"
    using hi by (auto simp: il)
qed


lemma round_ratio_error:
  fixes N D :: int
  assumes D: "0 < D"
  shows "\<bar>of_int (round_ratio N D) - of_int N / of_int D\<bar> \<le> (1 / 2 :: rat)"
proof -
  define f where "f = N div D"
  define r where "r = N mod D"
  have m: "round_ratio N D = (if 2 * r < D then f else if D < 2 * r then f + 1
               else if even f then f else f + 1)"
    by (simp add: round_ratio_def Let_def f_def r_def)
  have Dr: "(0::rat) < of_int D" using D by simp
  have r0: "0 \<le> r" "r < D" using D by (simp_all add: r_def)
  have "N = f * D + r" by (simp add: f_def r_def)
  then have "(of_int N :: rat) = of_int f * of_int D + of_int r"
    by (metis of_int_add of_int_mult)
  then have nd: "(of_int N / of_int D :: rat) = of_int f + of_int r / of_int D"
    using Dr by (simp add: field_simps)
  have rr: "(0::rat) \<le> of_int r / of_int D" "of_int r / of_int D < (1::rat)"
    using r0 Dr by simp_all
  show ?thesis
  proof (cases "2 * r < D")
    case True
    then have "(of_int (2 * r) :: rat) < of_int D" by (simp only: of_int_less_iff)
    then have "of_int r / of_int D < (1 / 2 :: rat)"
      using Dr by (simp add: field_simps)
    with True rr show ?thesis by (simp add: m nd)
  next
    case False
    show ?thesis
    proof (cases "D < 2 * r")
      case True
      then have "(of_int D :: rat) < of_int (2 * r)" by (simp only: of_int_less_iff)
      then have "(1 / 2 :: rat) < of_int r / of_int D"
        using Dr by (simp add: field_simps)
      with True False rr show ?thesis by (simp add: m nd)
    next
      case F2: False
      with False have "D = 2 * r" by simp
      then have "(of_int D :: rat) = 2 * of_int r" by simp
      then have h: "of_int r / of_int D = (1 / 2 :: rat)"
        using Dr by (simp add: field_simps)
      from False F2 show ?thesis by (simp add: m nd h)
    qed
  qed
qed

lemma round_ratio_nonneg: "0 < D \<Longrightarrow> 0 \<le> N \<Longrightarrow> 0 \<le> round_ratio N D"
  by (simp add: round_ratio_def Let_def pos_imp_zdiv_nonneg_iff)

lemma int_pow2_powi: "(of_int ((2::int) ^ nat j) :: rat) = 2 powi j" if "0 \<le> j"
  using that by (simp add: power_int_nonneg_exp)

lemma ulp_exponent_bound:
  assumes n: "0 < n" and d: "0 < d"
  shows "2 powi (ulp_exponent n d - 1) \<le> max ((of_int n / of_int d) * 2 powi (- 53)) (2 powi (- 1075) :: rat)"
proof -
  define q :: rat where "q = of_int n / of_int d"
  define k where "k = bitlen n - bitlen d"
  define c where "c = (if 0 \<le> k then d * 2 ^ nat k \<le> n else d \<le> n * 2 ^ nat (- k))"
  define il where "il = (if c then k else k - 1)"
  have e: "ulp_exponent n d = max (il - 52) (- 1074)"
    by (simp add: ulp_exponent_def Let_def k_def c_def il_def)
  have dr: "(0::rat) < of_int d" using d by simp
  have il: "2 powi il \<le> q"
  proof (cases c)
    case True
    then have ilk: "il = k" by (simp add: il_def)
    show ?thesis
    proof (cases "0 \<le> k")
      case k0: True
      with True have "d * 2 ^ nat k \<le> n" by (simp add: c_def)
      then have "(of_int (d * 2 ^ nat k) :: rat) \<le> of_int n" by (simp only: of_int_le_iff)
      then have "of_int d * 2 powi k \<le> (of_int n :: rat)"
        using k0 by (simp add: power_int_nonneg_exp)
      then have "2 powi k \<le> (of_int n :: rat) / of_int d"
        using dr by (simp add: pos_le_divide_eq mult.commute)
      then show ?thesis by (simp add: ilk q_def)
    next
      case k0: False
      with True have "d \<le> n * 2 ^ nat (- k)" by (simp add: c_def)
      then have "(of_int d :: rat) \<le> of_int (n * 2 ^ nat (- k))" by (simp only: of_int_le_iff)
      then have "(of_int d :: rat) \<le> of_int n * 2 powi (- k)"
        using k0 by (simp add: power_int_nonneg_exp)
      then have "(of_int d :: rat) * 2 powi k \<le> of_int n * (2 powi (- k) * 2 powi k)"
        by (simp add: mult_right_mono mult.assoc[symmetric])
      also have "(2::rat) powi (- k) * 2 powi k = 1"
        by (simp add: power_int_add[symmetric])
      finally have "2 powi k \<le> (of_int n :: rat) / of_int d"
        using dr by (simp add: pos_le_divide_eq mult.commute)
      then show ?thesis by (simp add: ilk q_def)
    qed
  next
    case False
    then have ilk: "il = k - 1" by (simp add: il_def)
    from bitlen_bounds[OF n] have nb: "2 ^ nat (bitlen n - 1) \<le> n" "n < 2 ^ nat (bitlen n)" by auto
    from bitlen_bounds[OF d] have db: "2 ^ nat (bitlen d - 1) \<le> d" "d < 2 ^ nat (bitlen d)" by auto
    have bn: "0 < bitlen n" using n by (simp add: bitlen_alt_def)
    have bd: "0 < bitlen d" using d by (simp add: bitlen_alt_def)
    have n1: "(2::rat) powi (bitlen n - 1) \<le> of_int n"
      using nb(1) bn int_pow2_powi[of "bitlen n - 1"] by (metis of_int_le_iff diff_ge_0_iff_ge zle_diff1_eq)
    have n2: "of_int n < (2::rat) powi (bitlen n)"
      using nb(2) bn int_pow2_powi[of "bitlen n"] by (metis of_int_less_iff less_imp_le)
    have d1: "(2::rat) powi (bitlen d - 1) \<le> of_int d"
      using db(1) bd int_pow2_powi[of "bitlen d - 1"] by (metis of_int_le_iff diff_ge_0_iff_ge zle_diff1_eq)
    have d2: "of_int d < (2::rat) powi (bitlen d)"
      using db(2) bd int_pow2_powi[of "bitlen d"] by (metis of_int_less_iff less_imp_le)
    have "2 powi (bitlen n - bitlen d - 1) < (of_int n :: rat) / of_int d"
      by (rule frac_bounds(1)[of 2 d "bitlen n" n "bitlen d", OF _ d n1 n2 d1 d2]) simp
    then show ?thesis by (simp add: ilk k_def q_def)
  qed
  show ?thesis
  proof (cases "- 1074 \<le> il - 52")
    case True
    then have "ulp_exponent n d - 1 = il + (- 53)" by (simp add: e)
    then have "(2::rat) powi (ulp_exponent n d - 1) = 2 powi (il + (- 53))"
      by (simp only:)
    also have "\<dots> = 2 powi il * 2 powi (- 53)"
      by (rule power_int_add) simp
    also have "\<dots> \<le> q * 2 powi (- 53)"
      using il by (intro mult_right_mono) simp_all
    finally show ?thesis by (simp add: q_def)
  next
    case False
    then have "ulp_exponent n d = - 1074" by (simp add: e)
    then show ?thesis by simp
  qed
qed


lemma rn_pos_form:
  assumes q: "0 < q"
  obtains e m where
    "rn q = (if 1024 < bitlen m + e then PInf else Fin (of_int m * 2 powi e))"
    "rn (- q) = (if 1024 < bitlen m + e then NInf else Fin (- (of_int m * 2 powi e)))"
    "\<bar>of_int m - q / 2 powi e\<bar> \<le> (1 / 2 :: rat)" "0 \<le> m"
    "2 powi (e - 1) \<le> max (q * 2 powi (- 53)) (2 powi (- 1075))"
proof -
  obtain n d where qd: "quotient_of q = (n, d)" "0 < n" "0 < d" "q = of_int n / of_int d"
    using q by (rule quotient_of_pos)
  define e where "e = ulp_exponent n d"
  define m where "m = (if e < 0 then round_ratio (n * 2 ^ nat (- e)) d
               else round_ratio n (d * 2 ^ nat e))"
  have rnq: "rn q = (if 1024 < bitlen m + e then PInf else Fin (of_int m * 2 powi e))"
    using qd(2) by (simp add: rn_def qd(1) Let_def e_def m_def pow2_powi)
  have qn: "quotient_of (- q) = (- n, d)"
    by (simp add: rat_uminus_code qd(1))
  have rnn: "rn (- q) = (if 1024 < bitlen m + e then NInf else Fin (- (of_int m * 2 powi e)))"
    using qd(2) by (simp add: rn_def qn Let_def e_def m_def pow2_powi)
  have dr: "(0::rat) < of_int d" using qd(3) by simp
  have half: "\<bar>of_int m - q / 2 powi e\<bar> \<le> (1 / 2 :: rat)"
  proof (cases "e < 0")
    case True
    have "(2::rat) powi (- e) = 2 ^ nat (- e)"
      using True by (simp add: power_int_nonneg_exp)
    then have p: "(2::rat) ^ nat (- e) = 1 / 2 powi e"
      by (simp add: power_int_minus_divide)
    have "(of_int (n * 2 ^ nat (- e)) / of_int d :: rat) = q / 2 powi e"
      by (simp add: qd(4) p)
    with round_ratio_error[OF qd(3), of "n * 2 ^ nat (- e)"] True show ?thesis
      by (simp add: m_def)
  next
    case False
    have "0 < d * 2 ^ nat e" using qd(3) by simp
    moreover have "(of_int n / of_int (d * 2 ^ nat e) :: rat) = q / 2 powi e"
      using False by (simp add: qd(4) power_int_nonneg_exp)
    ultimately show ?thesis
      using round_ratio_error[of "d * 2 ^ nat e" n] False by (simp add: m_def)
  qed
  have m0: "0 \<le> m"
    using qd(2,3) by (simp add: m_def round_ratio_nonneg)
  have ub: "2 powi (e - 1) \<le> max (q * 2 powi (- 53)) (2 powi (- 1075))"
    using ulp_exponent_bound[OF qd(2,3)] by (simp only: e_def qd(4))
  from rnq rnn half m0 ub show ?thesis by (rule that)
qed

lemma rn_pos_error:
  assumes q: "0 < q" and rn: "rn q = Fin x"
  shows "\<bar>x - q\<bar> \<le> max (q * 2 powi (- 53)) (2 powi (- 1075))" and "0 \<le> x"
    and "rn (- q) = Fin (- x)"
proof -
  obtain e m where f: "rn q = (if 1024 < bitlen m + e then PInf else Fin (of_int m * 2 powi e))"
    "rn (- q) = (if 1024 < bitlen m + e then NInf else Fin (- (of_int m * 2 powi e)))"
    "\<bar>of_int m - q / 2 powi e\<bar> \<le> (1 / 2 :: rat)" "0 \<le> m"
    "2 powi (e - 1) \<le> max (q * 2 powi (- 53)) (2 powi (- 1075))"
    using q by (rule rn_pos_form)
  from f(1) rn have fin: "\<not> 1024 < bitlen m + e" and x: "x = of_int m * 2 powi e"
    by (simp_all split: if_splits)
  show "rn (- q) = Fin (- x)"
    using f(2) fin by (simp add: x)
  have p2: "(0::rat) < 2 powi e" by simp
  have "x - q = (of_int m - q / 2 powi e) * 2 powi e"
    using p2 by (simp add: x field_simps)
  then have "\<bar>x - q\<bar> = \<bar>of_int m - q / 2 powi e\<bar> * 2 powi e"
    by (simp add: abs_mult)
  also have "\<dots> \<le> 1 / 2 * 2 powi e"
    using f(3) p2 by (intro mult_right_mono) simp_all
  also have "\<dots> = 2 powi (e - 1)"
    by (simp add: power_int_diff)
  finally have "\<bar>x - q\<bar> \<le> 2 powi (e - 1)" .
  then show "\<bar>x - q\<bar> \<le> max (q * 2 powi (- 53)) (2 powi (- 1075))"
    using f(5) by (rule order_trans)
  show "0 \<le> x" using f(4) by (simp add: x)
qed

lemma rn_finite:
  assumes q: "0 < q" and up: "q < 2 powi 1023"
  shows "\<exists>a. rn q = Fin a"
proof -
  obtain e m where f: "rn q = (if 1024 < bitlen m + e then PInf else Fin (of_int m * 2 powi e))"
    "\<bar>of_int m - q / 2 powi e\<bar> \<le> (1 / 2 :: rat)"
    "2 powi (e - 1) \<le> max (q * 2 powi (- 53)) (2 powi (- 1075))"
    using q by (rule rn_pos_form)
  have "q * 2 powi (- 53) < 2 powi 1023 * 2 powi (- 53)"
    using up by (intro mult_strict_right_mono) simp_all
  also have "\<dots> = (2::rat) powi 970"
    by (simp flip: power_int_add)
  finally have "q * 2 powi (- 53) < 2 powi 970" .
  moreover have "(2::rat) powi (- 1075) < 2 powi 970"
    by (intro power_int_strict_increasing) simp_all
  ultimately have "max (q * 2 powi (- 53)) (2 powi (- 1075)) < 2 powi 970"
    by simp
  with f(3) have "(2::rat) powi (e - 1) < 2 powi 970" by simp
  then have "e - 1 < 970"
  proof -
    assume h: "(2::rat) powi (e - 1) < 2 powi 970"
    show ?thesis
    proof (rule ccontr)
      assume "\<not> e - 1 < 970"
      then have "970 \<le> e - 1" by simp
      from power_int_increasing[OF this, of "2::rat"] h show False by simp
    qed
  qed
  then have e: "e \<le> 970" by simp
  have p2: "(0::rat) < 2 powi e" by simp
  have "q / 2 powi e < 2 powi 1023 / 2 powi e"
    using up p2 by (simp add: divide_strict_right_mono)
  also have "\<dots> = 2 powi (1023 - e)"
    by (simp add: power_int_diff)
  finally have qe: "q / 2 powi e < 2 powi (1023 - e)" .
  have "(1 / 2 :: rat) \<le> 2 powi (1023 - e)"
  proof -
    have "(2::rat) powi (- 1) \<le> 2 powi (1023 - e)"
      using e by (intro power_int_increasing) simp_all
    then show ?thesis by (simp add: power_int_minus_divide)
  qed
  with f(2) qe have "(of_int m :: rat) < 2 powi (1023 - e) + 2 powi (1023 - e)"
    by linarith
  also have "\<dots> = (2::rat) powi ((1023 - e) + 1)"
    by (subst power_int_add) simp_all
  also have "(1023 - e) + 1 = 1024 - e" by simp
  also have "(2::rat) powi (1024 - e) = of_int (2 ^ nat (1024 - e))"
    using e by (simp add: power_int_nonneg_exp)
  finally have "m < 2 ^ nat (1024 - e)"
    by (simp only: of_int_less_iff)
  then have "bitlen m \<le> 1024 - e"
    using e by (simp add: bitlen_le_iff_power)
  then show ?thesis by (simp add: f(1))
qed

lemma powi_less_exp:
  fixes b :: rat
  assumes "1 < b" "b powi x < b powi y"
  shows "x < y"
proof (rule ccontr)
  assume "\<not> x < y"
  then have "y \<le> x" by simp
  from power_int_increasing[OF this, of b] assms show False by simp
qed

text \<open>A float read from a rational in the normal range is within a relative error of \<open>2^-53\<close>.\<close>

lemma rn_near:
  assumes "2 powi (- 1022) \<le> q" and "rn q = Fin a"
  shows "\<bar>a - q\<bar> \<le> q * 2 powi (- 53)" and "0 < a"
proof -
  have q0: "0 < q"
    using assms(1) by (rule less_le_trans[rotated]) simp
  have "(2::rat) powi (- 1075) = 2 powi (- 1022) * 2 powi (- 53)"
    by (simp flip: power_int_add)
  also have "\<dots> \<le> q * 2 powi (- 53)"
    using assms(1) by (intro mult_right_mono) simp_all
  finally have "max (q * 2 powi (- 53)) (2 powi (- 1075)) = q * 2 powi (- 53)"
    by simp
  with rn_pos_error(1)[OF q0 assms(2)] show e: "\<bar>a - q\<bar> \<le> q * 2 powi (- 53)"
    by simp
  have "q * 2 powi (- 53) < q"
    using q0 by simp
  with e show "0 < a" by linarith
qed

text \<open>
  Two decimals on a grid of step \<open>g\<close> that read as the same float \<open>a\<close> are equal when
  \<open>a\<close> is below \<open>10^15\<close> steps.
\<close>

lemma same_float_same_decimal:
  assumes q: "2 powi (- 1022) \<le> q" "rn q = Fin a"
      and D: "0 < D" "rn D = Fin a"
      and g: "a < 10 ^ 15 * g"
      and qi: "q = of_int i * g" and Dj: "D = of_int j * g"
  shows "D = q"
proof -
  have q0: "0 < q"
    using q(1) by (rule less_le_trans[rotated]) simp
  have eq: "\<bar>a - q\<bar> \<le> q * 2 powi (- 53)" and a0: "0 < a"
    using rn_near[OF q] by simp_all
  have low: "(2::rat) powi (- 1075) \<le> q * 2 powi (- 53)"
  proof -
    have "(2::rat) powi (- 1075) = 2 powi (- 1022) * 2 powi (- 53)"
      by (simp flip: power_int_add)
    also have "\<dots> \<le> q * 2 powi (- 53)"
      using q(1) by (intro mult_right_mono) simp_all
    finally show ?thesis .
  qed
  have eD: "\<bar>a - D\<bar> \<le> D * 2 powi (- 53) \<or> \<bar>a - D\<bar> \<le> q * 2 powi (- 53)"
    using rn_pos_error(1)[OF D] low by (auto simp: max_def split: if_splits)
  have eps: "(2::rat) powi (- 53) = 1 / 9007199254740992"
    by (simp add: power_int_minus_divide)
  have "\<bar>D - q\<bar> < a / 10 ^ 15"
    using eq eD a0 q0 D(1) unfolding eps by (auto simp: abs_if split: if_splits)
  also have "\<dots> < g"
    using g by (simp add: field_simps)
  finally have lt: "\<bar>D - q\<bar> < g" .
  have g0: "0 < g"
    using g a0 by (simp add: zero_less_mult_iff)
  have "D - q = of_int (j - i) * g"
    by (simp add: qi Dj algebra_simps)
  with lt have "\<bar>of_int (j - i) :: rat\<bar> * g < 1 * g"
    using g0 by (simp add: abs_mult)
  then have "\<bar>of_int (j - i) :: rat\<bar> < 1"
    using g0 by (simp only: mult_less_cancel_right_pos)
  then have "j = i"
    by (simp flip: of_int_abs)
  then show ?thesis by (simp add: qi Dj)
qed

text \<open>
  The grid of a decimal of at most 15 digits: with \<open>j\<close> the decimal exponent of the float
  \<open>a\<close> read from \<open>q\<close>, the decimal \<open>q\<close> is a multiple of \<open>10^(j-14)\<close>, and \<open>a\<close> is below
  \<open>10^15\<close> such steps.
\<close>

lemma decimal_grid:
  assumes qc: "q = of_int c * 10 powi k" "0 < c" "c < 10 ^ 15"
      and low: "2 powi (- 1022) \<le> q" and rn: "rn q = Fin a"
  shows "a < 10 ^ 15 * 10 powi (ilog10 a - 14)"
    and "\<exists>i. q = of_int i * 10 powi (ilog10 a - 14)"
    and "10 powi (ilog10 a) \<le> a"
    and "\<bar>a - q\<bar> < 10 powi (ilog10 a - 14)"
proof -
  let ?j = "ilog10 a"
  have q0: "0 < q"
    using low by (rule less_le_trans[rotated]) simp
  have eq: "\<bar>a - q\<bar> \<le> q * 2 powi (- 53)" and a0: "0 < a"
    using rn_near[OF low rn] by simp_all
  have eps: "(2::rat) powi (- 53) = 1 / 9007199254740992"
    by (simp add: power_int_minus_divide)
  from ilog10_bounds[OF a0] have jb: "10 powi ?j \<le> a" "a < 10 powi (?j + 1)" by simp_all
  show "10 powi ?j \<le> a" by (rule jb(1))
  have split: "(10::rat) powi (?j + 1) = 10 ^ 15 * 10 powi (?j - 14)"
  proof -
    have "?j + 1 = 15 + (?j - 14)" by simp
    then have "(10::rat) powi (?j + 1) = 10 powi (15 + (?j - 14))" by (simp only:)
    also have "\<dots> = 10 powi 15 * 10 powi (?j - 14)"
      by (rule power_int_add) simp
    finally show ?thesis by simp
  qed
  with jb(2) show ag: "a < 10 ^ 15 * 10 powi (?j - 14)" by simp
  have "\<bar>a - q\<bar> < a / 10 ^ 15"
    using eq a0 q0 unfolding eps by (auto simp: abs_if split: if_splits)
  also have "\<dots> < 10 powi (?j - 14)"
    using ag by (simp add: field_simps)
  finally show "\<bar>a - q\<bar> < 10 powi (?j - 14)" .
  \<comment> \<open>the exponent of \<open>a\<close> is below \<open>k + 15\<close>\<close>
  have p0: "(0::rat) < 10 powi k" by simp
  have "of_int c \<le> (10 ^ 15 - 1 :: rat)"
  proof -
    from qc(3) have "c \<le> 10 ^ 15 - 1" by simp
    then have "(of_int c :: rat) \<le> of_int (10 ^ 15 - 1)" by (simp only: of_int_le_iff)
    then show ?thesis by simp
  qed
  then have qle: "q \<le> (10 ^ 15 - 1) * 10 powi k"
    unfolding qc(1) using p0 by (intro mult_right_mono) simp_all
  have "a \<le> q + q * 2 powi (- 53)"
    using eq by linarith
  also have "\<dots> = q * (1 + 1 / 9007199254740992)"
    by (simp add: eps algebra_simps)
  also have "\<dots> \<le> ((10 ^ 15 - 1) * 10 powi k) * (1 + 1 / 9007199254740992)"
    using qle by (intro mult_right_mono) simp_all
  also have "\<dots> = ((10 ^ 15 - 1) * (1 + 1 / 9007199254740992)) * 10 powi k"
    by (simp add: algebra_simps)
  also have "\<dots> < 10 ^ 15 * 10 powi k"
    using p0 by (intro mult_strict_right_mono) simp_all
  also have "\<dots> = 10 powi (k + 15)"
  proof -
    have "(10::rat) powi (k + 15) = 10 powi k * 10 powi 15"
      by (rule power_int_add) simp
    then show ?thesis by simp
  qed
  finally have "a < 10 powi (k + 15)" .
  with jb(1) have "(10::rat) powi ?j < 10 powi (k + 15)" by simp
  then have jk: "?j < k + 15"
    by (rule powi_less_exp[rotated]) simp
  then have nn: "0 \<le> k - ?j + 14" by simp
  have "k = (k - ?j + 14) + (?j - 14)" by simp
  then have "(10::rat) powi k = 10 powi ((k - ?j + 14) + (?j - 14))" by (simp only:)
  also have "\<dots> = 10 powi (k - ?j + 14) * 10 powi (?j - 14)"
    by (rule power_int_add) simp
  also have "(10::rat) powi (k - ?j + 14) = of_int (10 ^ nat (k - ?j + 14))"
    using nn by (simp add: power_int_nonneg_exp)
  finally have "q = of_int (c * 10 ^ nat (k - ?j + 14)) * 10 powi (?j - 14)"
    by (simp add: qc(1))
  then show "\<exists>i. q = of_int i * 10 powi (?j - 14)" by blast
qed

lemma step_candidates:
  assumes qc: "q = of_int c * 10 powi k" "0 < c" "c < 10 ^ 15"
      and low: "2 powi (- 1022) \<le> q" and rn: "rn q = Fin a"
      and n: "1 \<le> n" "n \<le> 15"
  defines "u \<equiv> pow10 (ilog10 a - int n + 1)"
  defines "lo \<equiv> of_int \<lfloor>a / u\<rfloor> * u" and "hi \<equiv> of_int \<lceil>a / u\<rceil> * u"
  shows "rn lo = Fin a \<Longrightarrow> lo = q" and "rn hi = Fin a \<Longrightarrow> hi = q"
    and "n = 15 \<Longrightarrow> lo = q \<or> hi = q"
proof -
  let ?j = "ilog10 a"
  let ?g = "(10::rat) powi (?j - 14)"
  note grid = decimal_grid[OF qc low rn]
  from grid(2) obtain i where qi: "q = of_int i * ?g" by blast
  have g0: "0 < ?g" by simp
  have ug: "u = of_int (10 ^ (15 - n)) * ?g"
  proof -
    have "?j - int n + 1 = int (15 - n) + (?j - 14)" using n by simp
    then have "u = 10 powi (int (15 - n) + (?j - 14))"
      by (simp only: u_def pow10_powi)
    also have "\<dots> = 10 powi int (15 - n) * ?g"
      by (rule power_int_add) simp
    finally show ?thesis by simp
  qed
  have u0: "0 < u" by (simp add: u_def pow10_powi)
  have "u \<le> 10 powi ?j"
    unfolding u_def pow10_powi using n by (intro power_int_increasing) simp_all
  with grid(3) have ua: "u \<le> a" by simp
  then have "1 \<le> a / u" using u0 by (simp add: pos_le_divide_eq)
  then have fl: "1 \<le> \<lfloor>a / u\<rfloor>" by (simp add: le_floor_iff)
  have "\<lfloor>a / u\<rfloor> \<le> \<lceil>a / u\<rceil>" by (rule floor_le_ceiling)
  with fl have ce: "1 \<le> \<lceil>a / u\<rceil>" by simp
  have lo0: "0 < lo"
    unfolding lo_def using fl u0 by (intro mult_pos_pos) simp_all
  have hi0: "0 < hi"
    unfolding hi_def using ce u0 by (intro mult_pos_pos) simp_all
  have loj: "lo = of_int (\<lfloor>a / u\<rfloor> * 10 ^ (15 - n)) * ?g"
    by (simp add: lo_def) (simp add: ug)
  have hij: "hi = of_int (\<lceil>a / u\<rceil> * 10 ^ (15 - n)) * ?g"
    by (simp add: hi_def) (simp add: ug)
  show "lo = q" if "rn lo = Fin a"
    by (rule same_float_same_decimal[OF low rn lo0 that grid(1) qi loj])
  show "hi = q" if "rn hi = Fin a"
    by (rule same_float_same_decimal[OF low rn hi0 that grid(1) qi hij])
  show "lo = q \<or> hi = q" if "n = 15"
  proof -
    from that have u: "u = ?g" by (simp add: ug)
    have near: "\<bar>a - q\<bar> < ?g" by (rule grid(4))
    have x: "a / ?g - of_int i = (a - q) / ?g"
      using g0 by (simp add: qi field_simps)
    have y: "\<bar>(a - q) / ?g\<bar> < 1"
      using near g0 by (simp add: abs_divide pos_divide_less_eq)
    have "\<bar>a / ?g - of_int i\<bar> < 1"
      unfolding x by (rule y)
    then have b: "of_int i - 1 < a / ?g" "a / ?g < of_int i + 1"
      by linarith+
    show ?thesis
    proof (cases "of_int i \<le> a / ?g")
      case True
      with b(2) have "\<lfloor>a / ?g\<rfloor> = i" by (intro floor_unique) simp_all
      then have "lo = q" by (simp add: lo_def u qi)
      then show ?thesis ..
    next
      case False
      with b(1) have "\<lceil>a / ?g\<rceil> = i" by (intro ceiling_unique) simp_all
      then have "hi = q" by (simp add: hi_def u qi)
      then show ?thesis ..
    qed
  qed
qed

lemma shortest_from_exact:
  assumes qc: "q = of_int c * 10 powi k" "0 < c" "c < 10 ^ 15"
      and low: "2 powi (- 1022) \<le> q" and rn: "rn q = Fin a"
  shows "1 \<le> n \<Longrightarrow> n \<le> 15 \<Longrightarrow> 15 < n + fuel \<Longrightarrow> shortest_from fuel n a = Some q"
proof (induction fuel arbitrary: n)
  case 0
  then show ?case by simp
next
  case (Suc fuel)
  define u where "u = pow10 (ilog10 a - int n + 1)"
  define lo where "lo = of_int \<lfloor>a / u\<rfloor> * u"
  define hi where "hi = of_int \<lceil>a / u\<rceil> * u"
  note cand = step_candidates[OF qc low rn Suc.prems(1,2), folded u_def, folded lo_def hi_def]
  have sf: "shortest_from (Suc fuel) n a =
      (if rn lo = Fin a \<and> rn hi = Fin a then
           Some (if a - lo < hi - a then lo else if hi - a < a - lo then hi
                 else if even \<lfloor>a / u\<rfloor> then lo else hi)
         else if rn lo = Fin a then Some lo
         else if rn hi = Fin a then Some hi
         else shortest_from fuel (Suc n) a)"
    by (simp add: Let_def u_def lo_def hi_def)
  show ?case
  proof (cases "rn lo = Fin a \<or> rn hi = Fin a")
    case True
    then show ?thesis
      unfolding sf using cand(1,2) by auto
  next
    case False
    with cand(3) rn have "n \<noteq> 15" by auto
    with Suc.prems have "1 \<le> Suc n" "Suc n \<le> 15" "15 < Suc n + fuel" by simp_all
    from Suc.IH[OF this] False show ?thesis
      unfolding sf by simp
  qed
qed

lemma rn_zero: "rn 0 = Fin 0"
  by (simp add: rn_def)

lemma normal_range:
  fixes q :: rat
  assumes "1 / 10 ^ 307 \<le> q" "q \<le> 10 ^ 307"
  shows "2 powi (- 1022) \<le> q" and "q < 2 powi 1023"
proof -
  have "(2::rat) powi (- 1022) \<le> 1 / 10 ^ 307"
    by (simp add: power_int_minus_divide)
  with assms(1) show "2 powi (- 1022) \<le> q" by simp
  have "(10::rat) ^ 307 < 2 powi 1023"
    by simp
  with assms(2) show "q < 2 powi 1023" by simp
qed

lemma short_decimal_pos:
  assumes qc: "q = of_int c * pow10 k" "\<bar>c\<bar> < 10 ^ 15"
      and rng: "1 / 10 ^ 307 \<le> q" "q \<le> 10 ^ 307"
  shows "\<exists>a. rn q = Fin a \<and> 0 < a \<and> shortest_from 17 1 a = Some q"
proof -
  note nr = normal_range[OF rng]
  have q0: "0 < q"
    using nr(1) by (rule less_le_trans[rotated]) simp
  have c0: "0 < c"
  proof (rule ccontr)
    assume "\<not> 0 < c"
    then have "(of_int c :: rat) \<le> 0" by simp
    then have "of_int c * pow10 k \<le> 0"
      by (simp add: pow10_powi mult_le_0_iff)
    with q0 qc(1) show False by simp
  qed
  with qc(2) have c15: "c < 10 ^ 15" by simp
  from rn_finite[OF q0 nr(2)] obtain a where a: "rn q = Fin a" by blast
  have "shortest_from 17 1 a = Some q"
    by (rule shortest_from_exact[OF qc(1)[unfolded pow10_powi] c0 c15 nr(1) a]) simp_all
  moreover have "0 < a" by (rule rn_near(2)[OF nr(1) a])
  ultimately show ?thesis using a by blast
qed

lemma decimal_of_float_short:
  assumes qc: "q = of_int c * pow10 k" "\<bar>c\<bar> < 10 ^ 15"
      and rng: "q = 0 \<or> (1 / 10 ^ 307 \<le> \<bar>q\<bar> \<and> \<bar>q\<bar> \<le> 10 ^ 307)"
  shows "\<exists>a. rn q = Fin a \<and> decimal_of_float (Fin a) = DFin q"
proof (cases "q = 0")
  case True
  then show ?thesis by (simp add: rn_zero decimal_of_float_def)
next
  case False
  with rng have r: "1 / 10 ^ 307 \<le> \<bar>q\<bar>" "\<bar>q\<bar> \<le> 10 ^ 307" by simp_all
  show ?thesis
  proof (cases "0 < q")
    case True
    with r have "1 / 10 ^ 307 \<le> q" "q \<le> 10 ^ 307" by simp_all
    from short_decimal_pos[OF qc this] obtain a where
      a: "rn q = Fin a" "0 < a" "shortest_from 17 1 a = Some q" by blast
    then have "decimal_of_float (Fin a) = DFin q"
      by (simp add: decimal_of_float_def)
    with a(1) show ?thesis by blast
  next
    case F: False
    with False have neg: "q < 0" by simp
    have qc': "- q = of_int (- c) * pow10 k" "\<bar>- c\<bar> < 10 ^ 15"
      using qc by simp_all
    from r neg have "1 / 10 ^ 307 \<le> - q" "- q \<le> 10 ^ 307" by simp_all
    from short_decimal_pos[OF qc' this] obtain a where
      a: "rn (- q) = Fin a" "0 < a" "shortest_from 17 1 a = Some (- q)" by blast
    from neg have "0 < - q" by simp
    from rn_pos_error(3)[OF this a(1)] have rq: "rn q = Fin (- a)" by simp
    have "decimal_of_float (Fin (- a)) = DFin q"
      using a(2,3) by (simp add: decimal_of_float_def)
    with rq show ?thesis by blast
  qed
qed

lemma strip_decomp:
  "\<exists>a b. s = a @ rev (dropWhile P (rev (dropWhile P s))) @ b
      \<and> (\<forall>c \<in> set a. P c) \<and> (\<forall>c \<in> set b. P c)"
proof -
  let ?t = "dropWhile P s"
  have s: "s = takeWhile P s @ ?t" by simp
  have "rev ?t = takeWhile P (rev ?t) @ dropWhile P (rev ?t)" by simp
  then have "rev (rev ?t) = rev (takeWhile P (rev ?t) @ dropWhile P (rev ?t))" by simp
  then have t: "?t = rev (dropWhile P (rev ?t)) @ rev (takeWhile P (rev ?t))"
    by (simp only: rev_rev_ident rev_append)
  have a: "\<forall>c \<in> set (takeWhile P s). P c"
    by (auto dest: set_takeWhileD)
  have b: "\<forall>c \<in> set (rev (takeWhile P (rev ?t))). P c"
    by (auto dest: set_takeWhileD)
  from s t have "s = takeWhile P s @ rev (dropWhile P (rev ?t)) @ rev (takeWhile P (rev ?t))"
    by metis
  with a b show ?thesis by blast
qed

lemma strip_sandwich:
  assumes "\<forall>c \<in> set a. P c" and "\<forall>c \<in> set b. P c" and "\<forall>c \<in> set m. \<not> P c"
  shows "rev (dropWhile P (rev (dropWhile P (a @ m @ b)))) = m"
proof (cases m)
  case Nil
  from assms(1,2) have "\<forall>c \<in> set (a @ [] @ b). P c" by auto
  then have e: "dropWhile P (a @ [] @ b) = []" by (simp only: dropWhile_eq_Nil_conv)
  show ?thesis unfolding Nil e by simp
next
  case (Cons x xs)
  with assms(3) have x: "\<not> P x" by simp
  from assms(1) have "dropWhile P (a @ m @ b) = dropWhile P (m @ b)"
    by (intro dropWhile_append2) simp
  also have "\<dots> = m @ b" using Cons x by simp
  finally have 1: "dropWhile P (a @ m @ b) = m @ b" .
  from Cons have "m \<noteq> []" by simp
  then obtain ys y where m: "m = ys @ [y]" by (cases m rule: rev_cases) auto
  with assms(3) have y: "\<not> P y" by simp
  from assms(2) have "dropWhile P (rev b @ rev m) = dropWhile P (rev m)"
    by (intro dropWhile_append2) simp
  also have "\<dots> = rev m" using m y by simp
  finally show ?thesis unfolding 1 by simp
qed

lemma strip_keeps:
  assumes "c \<in> set s" and "\<not> P c"
  shows "c \<in> set (rev (dropWhile P (rev (dropWhile P s))))"
proof -
  from strip_decomp[of s P] obtain a b where
    d: "s = a @ rev (dropWhile P (rev (dropWhile P s))) @ b"
       "\<forall>c \<in> set a. P c" "\<forall>c \<in> set b. P c"
    by blast
  from assms(1) have "c \<in> set (a @ rev (dropWhile P (rev (dropWhile P s))) @ b)"
    using d(1) by simp
  with d(2,3) assms(2) show ?thesis by auto
qed

text \<open>The characters of a numeral, none of which is white space.\<close>

lemma digit_not_space: "is_digit c \<Longrightarrow> \<not> is_unicode_space c"
  unfolding is_digit_def is_unicode_space_def by auto

lemma mark_not_space: "c \<in> set ''.eE+-_'' \<Longrightarrow> \<not> is_unicode_space c"
  unfolding is_unicode_space_def by auto

lemma small_letter_not_space: "c \<in> set ''infinitya'' \<Longrightarrow> \<not> is_unicode_space c"
  unfolding is_unicode_space_def by auto

lemma space_is_unicode_space: "is_space c \<Longrightarrow> is_unicode_space c"
  unfolding is_space_def is_unicode_space_def by auto

lemma space_to_ascii_id: "\<not> is_unicode_space c \<Longrightarrow> space_to_ascii c = c"
  unfolding is_unicode_space_def space_to_ascii_def by auto

lemma space_to_ascii_cases:
  "is_unicode_space c \<Longrightarrow> is_space (space_to_ascii c) \<or> (space_to_ascii c = c \<and> \<not> is_space c)"
  unfolding is_unicode_space_def space_to_ascii_def is_space_def by auto

lemma parse_exponent_chars:
  assumes "parse_exponent r = Some ex" and "c \<in> set r"
  shows "is_digit c \<or> c \<in> set ''.eE+-_''"
proof (cases r)
  case Nil
  with assms show ?thesis by simp
next
  case (Cons x xs)
  with assms(1) have x: "x = CHR ''e'' \<or> x = CHR ''E''"
    by (auto simp: parse_exponent_def split: if_splits)
  obtain neg ds where sd: "split_sign xs = (neg, ds)" by (cases "split_sign xs")
  with assms(1) Cons x have ds: "list_all is_digit ds"
    by (auto simp: parse_exponent_def split: if_splits)
  from sd have "xs = ds \<or> xs = CHR ''-'' # ds \<or> xs = CHR ''+'' # ds"
    by (auto simp: split_sign_def split: list.splits if_splits)
  with assms(2) Cons x ds show ?thesis
    by (auto simp: list_all_iff)
qed

lemma parse_unsigned_chars:
  assumes "parse_unsigned u = Some ce" and "c \<in> set u"
  shows "is_digit c \<or> c \<in> set ''.eE+-_''"
proof -
  let ?ip = "takeWhile is_digit u" and ?r1 = "dropWhile is_digit u"
  have u: "u = ?ip @ ?r1" by simp
  from assms(2) u have "c \<in> set ?ip \<or> c \<in> set ?r1"
    by (metis Un_iff set_append)
  then show ?thesis
  proof
    assume "c \<in> set ?ip"
    then show ?thesis by (auto dest: set_takeWhileD)
  next
    assume c: "c \<in> set ?r1"
    show ?thesis
    proof (cases "\<exists>r. ?r1 = CHR ''.'' # r")
      case True
      then obtain r where r: "?r1 = CHR ''.'' # r" by blast
      with assms(1) obtain ex where ex: "parse_exponent (dropWhile is_digit r) = Some ex"
        by (auto simp: parse_unsigned_def Let_def split: if_splits option.splits)
      have "r = takeWhile is_digit r @ dropWhile is_digit r" by simp
      with c r have "c = CHR ''.'' \<or> c \<in> set (takeWhile is_digit r) \<or> c \<in> set (dropWhile is_digit r)"
        by (metis Un_iff set_ConsD set_append)
      then show ?thesis
        using parse_exponent_chars[OF ex] by (auto dest: set_takeWhileD)
    next
      case False
      with assms(1) obtain ex where ex: "parse_exponent ?r1 = Some ex"
        by (cases ?r1) (auto simp: parse_unsigned_def Let_def split: if_splits option.splits)
      from parse_exponent_chars[OF ex c] show ?thesis .
    qed
  qed
qed

lemma split_sign_chars:
  assumes "split_sign y = (neg, u)" and "c \<in> set y"
  shows "c \<in> set u \<or> c \<in> set ''.eE+-_''"
  using assms by (auto simp: split_sign_def split: list.splits if_splits)

lemma drop_underscores_chars:
  "c \<in> set y \<Longrightarrow> c \<in> set (drop_underscores y) \<or> c \<in> set ''.eE+-_''"
  by (auto simp: drop_underscores_def)

lemma decimal_chars:
  assumes "decimal_of_string s = Some (DFin q)" and "c \<in> set (strip_unicode s)"
  shows "is_digit c \<or> c \<in> set ''.eE+-_''"
proof -
  obtain neg u where su: "split_sign (drop_underscores (strip_unicode s)) = (neg, u)"
    by (cases "split_sign (drop_underscores (strip_unicode s))")
  from assms(1) su obtain ce where p: "parse_unsigned u = Some ce"
    by (auto simp: decimal_of_string_def split: if_splits option.splits)
  from drop_underscores_chars[OF assms(2)] split_sign_chars[OF su] parse_unsigned_chars[OF p]
  show ?thesis by blast
qed

lemma upper_not_space: "c \<in> set ''ABCDEFGHIJKLMNOPQRSTUVWXYZ'' \<Longrightarrow> \<not> is_unicode_space c"
  unfolding is_unicode_space_def by auto

lemma space_below_192: "is_unicode_space c \<Longrightarrow> (of_char c :: nat) < 192"
  unfolding is_unicode_space_def by auto

lemma lower_char_space:
  assumes "is_unicode_space c"
  shows "lower_char c = c"
proof -
  from assms upper_not_space have u: "c \<notin> set ''ABCDEFGHIJKLMNOPQRSTUVWXYZ''"
    by blast
  then have n: "map_of (zip ''ABCDEFGHIJKLMNOPQRSTUVWXYZ'' ''abcdefghijklmnopqrstuvwxyz'') c = None"
    by (subst map_of_zip_is_None) simp_all
  from space_below_192[OF assms] n show ?thesis by (simp add: lower_char_def Let_def)
qed

lemma word_not_space:
  assumes "py_lower u = w" and "set w \<subseteq> set ''infinitya''" and "c \<in> set u"
  shows "\<not> is_unicode_space c"
proof
  assume sp: "is_unicode_space c"
  from assms(3) have "lower_char c \<in> set (py_lower u)"
    unfolding py_lower_def set_map by (rule imageI)
  then have "c \<in> set w"
    unfolding assms(1) lower_char_space[OF sp] .
  with assms(2) have "c \<in> set ''infinitya''" by (rule subsetD)
  from small_letter_not_space[OF this] sp show False by (rule notE)
qed

lemma float_chars:
  assumes "float_of_string s = Some x" and "c \<in> set (strip (map space_to_ascii s))"
  shows "\<not> is_unicode_space c"
proof -
  let ?s = "strip (map space_to_ascii s)"
  obtain neg u where su: "split_sign (drop_underscores ?s) = (neg, u)"
    by (cases "split_sign (drop_underscores ?s)")
  from drop_underscores_chars[OF assms(2)] split_sign_chars[OF su]
  have "c \<in> set u \<or> c \<in> set ''.eE+-_''" by blast
  then show ?thesis
  proof
    assume "c \<in> set ''.eE+-_''"
    then show ?thesis by (rule mark_not_space)
  next
    assume c: "c \<in> set u"
    consider "py_lower u = ''inf''" | "py_lower u = ''infinity''" | "py_lower u = ''nan''"
      | ce where "parse_unsigned u = Some ce"
      using assms(1) su
      by (auto simp: float_of_string_def Let_def split: if_splits option.splits)
    then show ?thesis
    proof cases
      case 1
      show ?thesis by (rule word_not_space[OF 1 _ c]) simp
    next
      case 2
      show ?thesis by (rule word_not_space[OF 2 _ c]) simp
    next
      case 3
      show ?thesis by (rule word_not_space[OF 3 _ c]) simp
    next
      case 4
      from parse_unsigned_chars[OF 4 c] show ?thesis
        using digit_not_space mark_not_space by blast
    qed
  qed
qed

text \<open>
  A string that \<^verbatim>\<open>Decimal\<close> reads as a finite number and that \<^verbatim>\<open>float\<close> accepts is read by
  \<^verbatim>\<open>float\<close> as the float nearest to that number.
\<close>

lemma parse_agree:
  assumes "float_of_string s = Some x" and "decimal_of_string s = Some (DFin q)"
  shows "x = rn q"
proof -
  let ?m = "strip_unicode s"
  from strip_decomp[of s is_unicode_space] obtain a b where
    d: "s = a @ ?m @ b" "\<forall>c \<in> set a. is_unicode_space c" "\<forall>c \<in> set b. is_unicode_space c"
    unfolding strip_unicode_def by blast
  have m: "\<forall>c \<in> set ?m. \<not> is_unicode_space c"
    using decimal_chars[OF assms(2)] digit_not_space mark_not_space by blast
  then have mid: "map space_to_ascii ?m = ?m"
    by (simp add: space_to_ascii_id map_idI)
  have A: "map space_to_ascii s = map space_to_ascii a @ ?m @ map space_to_ascii b"
    using d(1) mid by (metis map_append)
  have ends: "\<forall>c \<in> set (map space_to_ascii a) \<union> set (map space_to_ascii b). is_space c"
  proof (rule ccontr)
    assume "\<not> ?thesis"
    then obtain c where c: "c \<in> set a \<union> set b" "\<not> is_space (space_to_ascii c)" by auto
    with d(2,3) have u: "is_unicode_space c" by blast
    from space_to_ascii_cases[OF u] c(2) have k: "space_to_ascii c = c" "\<not> is_space c" by auto
    from c(1) d(1) have "c \<in> set s" by (metis Un_iff set_append)
    then have "space_to_ascii c \<in> set (map space_to_ascii s)" by simp
    with k have "c \<in> set (map space_to_ascii s)" by simp
    from strip_keeps[of c "map space_to_ascii s" is_space, OF this k(2)] have "c \<in> set (strip (map space_to_ascii s))"
      by (simp add: strip_def)
    from float_chars[OF assms(1) this] u show False by blast
  qed
  have "\<forall>c \<in> set ?m. \<not> is_space c"
    using m space_is_unicode_space by blast
  with ends have sf: "strip (map space_to_ascii s) = ?m"
    unfolding A strip_def by (intro strip_sandwich) auto
  obtain neg u where su: "split_sign (drop_underscores ?m) = (neg, u)"
    by (cases "split_sign (drop_underscores ?m)")
  have nanlit: "is_nan_literal ''nan''"
    by (simp add: is_nan_literal_def)
  from assms(2) su have dd: "py_lower u \<noteq> ''inf''" "py_lower u \<noteq> ''infinity''"
    "\<not> is_nan_literal (py_lower u)"
    by (auto simp: decimal_of_string_def split: if_splits)
  with nanlit have nn: "py_lower u \<noteq> ''nan''" by auto
  from assms(2) su dd obtain c e where p: "parse_unsigned u = Some (c, e)"
    "q = signed neg (of_int c * pow10 e)"
    by (auto simp: decimal_of_string_def split: option.splits)
  from assms(1) su dd(1,2) nn p show ?thesis
    unfolding float_of_string_def sf by (auto simp: Let_def split: if_splits)
qed

text \<open>A finite decimal has a digit, and none of the sentinels of the overnight rate has.\<close>

lemma parse_unsigned_digit:
  assumes "parse_unsigned u = Some ce"
  shows "\<exists>c \<in> set u. is_digit c"
proof -
  let ?ip = "takeWhile is_digit u" and ?r1 = "dropWhile is_digit u"
  let ?fp = "case ?r1 of [] \<Rightarrow> [] | c # r \<Rightarrow> if c = CHR ''.'' then takeWhile is_digit r else []"
  from assms have ne: "?ip \<noteq> [] \<or> ?fp \<noteq> []"
    by (auto simp: parse_unsigned_def Let_def split: if_splits)
  show ?thesis
  proof (cases "?ip = []")
    case False
    then obtain c where "c \<in> set ?ip" by (cases ?ip) auto
    then have "c \<in> set u" "is_digit c"
      by (auto dest: set_takeWhileD)
    then show ?thesis by blast
  next
    case True
    with ne have fp: "?fp \<noteq> []" by blast
    then obtain r where r: "?r1 = CHR ''.'' # r" "takeWhile is_digit r \<noteq> []"
      by (cases ?r1) (auto split: if_splits)
    then obtain c where "c \<in> set (takeWhile is_digit r)" by (cases "takeWhile is_digit r") auto
    then have c: "c \<in> set r" "is_digit c" by (auto dest: set_takeWhileD)
    from c(1) r(1) have "c \<in> set ?r1" by simp
    then have "c \<in> set u" by (rule set_dropWhileD)
    with c(2) show ?thesis by blast
  qed
qed

lemma set_strip_unicode: "set (strip_unicode s) \<subseteq> set s"
proof
  fix c assume "c \<in> set (strip_unicode s)"
  then have "c \<in> set (dropWhile is_unicode_space (rev (dropWhile is_unicode_space s)))"
    by (simp add: strip_unicode_def)
  then have "c \<in> set (rev (dropWhile is_unicode_space s))" by (rule set_dropWhileD)
  then have "c \<in> set (dropWhile is_unicode_space s)" by simp
  then show "c \<in> set s" by (rule set_dropWhileD)
qed

lemma set_split_sign: "split_sign s = (neg, u) \<Longrightarrow> set u \<subseteq> set s"
  by (auto simp: split_sign_def split: list.splits if_splits)

lemma decimal_has_digit:
  assumes "decimal_of_string s = Some (DFin q)"
  shows "\<exists>c \<in> set s. is_digit c"
proof -
  obtain neg u where su: "split_sign (drop_underscores (strip_unicode s)) = (neg, u)"
    by (cases "split_sign (drop_underscores (strip_unicode s))")
  from assms su obtain ce where "parse_unsigned u = Some ce"
    by (auto simp: decimal_of_string_def split: if_splits option.splits)
  then obtain c where c: "c \<in> set u" "is_digit c"
    using parse_unsigned_digit by blast
  from c(1) set_split_sign[OF su] have "c \<in> set (drop_underscores (strip_unicode s))" by blast
  then have "c \<in> set (strip_unicode s)" by (simp add: drop_underscores_def)
  with set_strip_unicode have "c \<in> set s" by blast
  with c(2) show ?thesis by blast
qed

lemma lower_char_digit:
  assumes "is_digit c"
  shows "lower_char c = c"
proof -
  from assms have u: "c \<notin> set ''ABCDEFGHIJKLMNOPQRSTUVWXYZ''"
    unfolding is_digit_def by auto
  then have n: "map_of (zip ''ABCDEFGHIJKLMNOPQRSTUVWXYZ'' ''abcdefghijklmnopqrstuvwxyz'') c = None"
    by (subst map_of_zip_is_None) simp_all
  from assms have "(of_char c :: nat) < 192"
    unfolding is_digit_def by auto
  with n show ?thesis by (simp add: lower_char_def Let_def)
qed

lemma sentinel_chars: "l \<in> set sentinels \<Longrightarrow> set l \<subseteq> set ''-n/aoe''"
  unfolding sentinels_def by auto

lemma digit_not_sentinel_char: "is_digit c \<Longrightarrow> c \<notin> set ''-n/aoe''"
  unfolding is_digit_def by auto

lemma decimal_not_sentinel:
  assumes "decimal_of_string s = Some (DFin q)"
  shows "\<not> is_sentinel (JStr s)"
proof
  assume "is_sentinel (JStr s)"
  then have l: "py_lower s \<in> set sentinels" by (simp add: is_sentinel_def)
  from decimal_has_digit[OF assms] obtain c where c: "c \<in> set s" "is_digit c" by blast
  have "lower_char c = c"
    using c(2) by (rule lower_char_digit)
  with c(1) have "c \<in> set (py_lower s)"
    unfolding py_lower_def set_map by (metis imageI)
  with sentinel_chars[OF l] have "c \<in> set ''-n/aoe''" by blast
  with digit_not_sentinel_char[OF c(2)] show False by blast
qed

section \<open>Exactness of the stored values\<close>





end
